theory Spec2Isabelle
  imports Main "HOL-Library.Sublist"
begin

section \<open>The Windows proxy configuration service (net/proxy/proxy_config_service_win.cc)\<close>

text \<open>
  The service keeps a list of watched registry keys (\<open>keys_to_watch_\<close>), re-arms a key
  when its watch event is signalled, and asks its superclass
  \<open>PollingProxyConfigService\<close> to check for changes. The registry, the object watcher,
  WinHTTP and the proxy configuration classes are declared in other files; what the
  operating system answers is a parameter of the model (a \<open>platform\<close>), threaded
  through an explicit world state.
\<close>

subsection \<open>Platform types\<close>

type_synonym HANDLE = nat

type_synonym wstring = string

datatype HKEY = HKEY_CURRENT_USER | HKEY_LOCAL_MACHINE

definition KEY_NOTIFY :: nat where
  "KEY_NOTIFY = 16"

record WINHTTP_CURRENT_USER_IE_PROXY_CONFIG =
  fAutoDetect :: bool
  lpszAutoConfigUrl :: "wstring option"
  lpszProxy :: "wstring option"
  lpszProxyBypass :: "wstring option"

text \<open>
  Modelled from the spec: \<open>base::win::RegKey\<close> (base/win/registry.h) is not part of the
  source file. The spec's WatchEntry "pairs one configuration-source location identifier
  with its live ChangeWatch handle": the key remembers the location it was created for
  and its watch event (\<open>0\<close> is the null handle).
\<close>

record RegKey =
  opened_key :: "(HKEY \<times> wstring) option"
  watch_event_handle :: HANDLE

text \<open>
  Modelled from the spec: \<open>base::ObjectWatcher\<close> (base/object_watcher.h) is not part
  of the source file; the watcher remembers the object it waits for.
\<close>

record ObjectWatcher =
  watched_object :: "HANDLE option"

text \<open>
  The answers of the operating system, over a world state \<open>'w\<close>:
  whether a registry key can be created, whether a change notification can be registered
  on a key (and with which event handle), whether the message loop accepts a wait on an
  event, and what WinHTTP reports as the current user's IE proxy settings.
\<close>

record 'w platform =
  os_RegCreateKey :: "'w \<Rightarrow> HKEY \<Rightarrow> wstring \<Rightarrow> nat \<Rightarrow> bool \<times> 'w"
  os_RegNotifyChange :: "'w \<Rightarrow> RegKey \<Rightarrow> HANDLE option \<times> 'w"
  os_WatchObject :: "'w \<Rightarrow> HANDLE \<Rightarrow> bool \<times> 'w"
  os_WinHttpGetIEProxyConfigForCurrentUser ::
    "'w \<Rightarrow> bool \<times> WINHTTP_CURRENT_USER_IE_PROXY_CONFIG"

text \<open>
  Modelled from the spec: \<open>RegKey::Create\<close>, \<open>RegKey::StartWatching\<close> and
  \<open>ObjectWatcher::StartWatching\<close> are not part of the source file. The spec's
  ChangeWatch "exposes \<open>arm(callback) -> bool\<close> (returns false if the location no
  longer exists or registration failed)". A call that fails leaves the object as it was;
  every caller in the source file discards the entry after a failure.
\<close>

definition RegKey_Create ::
  "'w platform \<Rightarrow> 'w \<Rightarrow> RegKey \<Rightarrow> HKEY \<Rightarrow> wstring \<Rightarrow> nat \<Rightarrow> bool \<times> RegKey \<times> 'w" where
  "RegKey_Create P w k rootkey subkey access =
     (case os_RegCreateKey P w rootkey subkey access of
        (True, w') \<Rightarrow> (True, k\<lparr>opened_key := Some (rootkey, subkey)\<rparr>, w')
      | (False, w') \<Rightarrow> (False, k, w'))"

definition RegKey_StartWatching ::
  "'w platform \<Rightarrow> 'w \<Rightarrow> RegKey \<Rightarrow> bool \<times> RegKey \<times> 'w" where
  "RegKey_StartWatching P w k =
     (case os_RegNotifyChange P w k of
        (Some h, w') \<Rightarrow> (True, k\<lparr>watch_event_handle := h\<rparr>, w')
      | (None, w') \<Rightarrow> (False, k, w'))"

definition ObjectWatcher_StartWatching ::
  "'w platform \<Rightarrow> 'w \<Rightarrow> ObjectWatcher \<Rightarrow> HANDLE \<Rightarrow> bool \<times> ObjectWatcher \<times> 'w" where
  "ObjectWatcher_StartWatching P w ow object =
     (case os_WatchObject P w object of
        (True, w') \<Rightarrow> (True, ow\<lparr>watched_object := Some object\<rparr>, w')
      | (False, w') \<Rightarrow> (False, ow, w'))"

subsection \<open>KeyEntry: a RegKey and ObjectWatcher pair\<close>

record KeyEntry =
  key :: RegKey
  watcher :: ObjectWatcher

definition KeyEntry_new :: KeyEntry where
  "KeyEntry_new =
     \<lparr>key = \<lparr>opened_key = None, watch_event_handle = 0\<rparr>, watcher = \<lparr>watched_object = None\<rparr>\<rparr>"

text \<open>
  \<open>KeyEntry::StartWatching\<close>: first the watch event of the registry key, then the
  object watcher on that event; \<open>false\<close> as soon as one of the two fails. The delegate
  is always the service itself and is left out.
\<close>

definition KeyEntry_StartWatching ::
  "'w platform \<Rightarrow> 'w \<Rightarrow> KeyEntry \<Rightarrow> bool \<times> KeyEntry \<times> 'w" where
  "KeyEntry_StartWatching P w e =
     (case RegKey_StartWatching P w (key e) of
        (False, k', w1) \<Rightarrow> (False, e\<lparr>key := k'\<rparr>, w1)
      | (True, k', w1) \<Rightarrow>
          (case ObjectWatcher_StartWatching P w1 (watcher e) (watch_event_handle k') of
             (False, ow', w2) \<Rightarrow> (False, e\<lparr>key := k', watcher := ow'\<rparr>, w2)
           | (True, ow', w2) \<Rightarrow> (True, e\<lparr>key := k', watcher := ow'\<rparr>, w2)))"

definition KeyEntry_CreateRegKey ::
  "'w platform \<Rightarrow> 'w \<Rightarrow> KeyEntry \<Rightarrow> HKEY \<Rightarrow> wstring \<Rightarrow> bool \<times> KeyEntry \<times> 'w" where
  "KeyEntry_CreateRegKey P w e rootkey subkey =
     (case RegKey_Create P w (key e) rootkey subkey KEY_NOTIFY of
        (ok, k', w') \<Rightarrow> (ok, e\<lparr>key := k'\<rparr>, w'))"

definition watch_event :: "KeyEntry \<Rightarrow> HANDLE" where
  "watch_event e = watch_event_handle (key e)"

subsection \<open>The service\<close>

definition kPollIntervalSec :: int where
  "kPollIntervalSec = 10"

text \<open>
  \<open>base::TimeDelta\<close> is declared elsewhere; a value is kept as the factory call that
  made it, \<open>TimeDelta::FromSeconds(n)\<close>.
\<close>

datatype TimeDelta = FromSeconds int

fun InSeconds :: "TimeDelta \<Rightarrow> int" where
  "InSeconds (FromSeconds n) = n"

datatype GetConfigFunction = GetCurrentProxyConfig_ptr

type_synonym Observer = nat

text \<open>
  The superclass \<open>PollingProxyConfigService\<close> is declared elsewhere. The service state
  keeps what the constructor hands to it (the poll interval and the fetch function) and
  the calls the subclass makes into it, in order.
\<close>

datatype polling_call = Polling_AddObserver Observer | Polling_CheckForChangesNow

record 'w ProxyConfigServiceWin =
  poll_interval :: TimeDelta
  get_config_func :: GetConfigFunction
  polling_calls :: "polling_call list"
  keys_to_watch :: "KeyEntry list"
  world :: 'w

definition ProxyConfigServiceWin_ctor :: "'w \<Rightarrow> 'w ProxyConfigServiceWin" where
  "ProxyConfigServiceWin_ctor w =
     \<lparr>poll_interval = FromSeconds kPollIntervalSec,
      get_config_func = GetCurrentProxyConfig_ptr,
      polling_calls = [],
      keys_to_watch = [],
      world = w\<rparr>"

text \<open>
  \<open>AddKeyToWatchList\<close>: a fresh entry; return \<open>false\<close> when the key cannot be created
  or the watch cannot be started (the entry is then destroyed), otherwise push the entry
  at the back of \<open>keys_to_watch_\<close>.
\<close>

definition AddKeyToWatchList ::
  "'w platform \<Rightarrow> 'w ProxyConfigServiceWin \<Rightarrow> HKEY \<Rightarrow> wstring
    \<Rightarrow> bool \<times> 'w ProxyConfigServiceWin" where
  "AddKeyToWatchList P s rootkey subkey =
     (case KeyEntry_CreateRegKey P (world s) KeyEntry_new rootkey subkey of
        (False, e1, w1) \<Rightarrow> (False, s\<lparr>world := w1\<rparr>)
      | (True, e1, w1) \<Rightarrow>
          (case KeyEntry_StartWatching P w1 e1 of
             (False, e2, w2) \<Rightarrow> (False, s\<lparr>world := w2\<rparr>)
           | (True, e2, w2) \<Rightarrow>
               (True, s\<lparr>keys_to_watch := keys_to_watch s @ [e2], world := w2\<rparr>)))"

definition backslash :: char where
  "backslash = CHR 0x5C"

definition kInternetSettings :: wstring where
  "kInternetSettings =
     ''Software'' @ backslash # ''Microsoft'' @ backslash # ''Windows'' @ backslash #
     ''CurrentVersion'' @ backslash # ''Internet Settings''"

definition kPoliciesInternetSettings :: wstring where
  "kPoliciesInternetSettings =
     ''SOFTWARE'' @ backslash # ''Policies'' @ backslash # ''Microsoft'' @ backslash #
     ''Windows'' @ backslash # ''CurrentVersion'' @ backslash # ''Internet Settings''"

text \<open>
  \<open>StartWatchingRegistryForChanges\<close>: nothing when \<open>keys_to_watch_\<close> is not empty
  ("already initialized"); otherwise three calls of \<open>AddKeyToWatchList\<close>, whose
  results are ignored.
\<close>

definition StartWatchingRegistryForChanges ::
  "'w platform \<Rightarrow> 'w ProxyConfigServiceWin \<Rightarrow> 'w ProxyConfigServiceWin" where
  "StartWatchingRegistryForChanges P s =
     (if keys_to_watch s \<noteq> [] then s
      else
        let s1 = snd (AddKeyToWatchList P s HKEY_CURRENT_USER kInternetSettings);
            s2 = snd (AddKeyToWatchList P s1 HKEY_LOCAL_MACHINE kInternetSettings);
            s3 = snd (AddKeyToWatchList P s2 HKEY_LOCAL_MACHINE kPoliciesInternetSettings)
        in s3)"

definition AddObserver ::
  "'w platform \<Rightarrow> 'w ProxyConfigServiceWin \<Rightarrow> Observer \<Rightarrow> 'w ProxyConfigServiceWin" where
  "AddObserver P s observer =
     (let s1 = StartWatchingRegistryForChanges P s
      in s1\<lparr>polling_calls := polling_calls s1 @ [Polling_AddObserver observer]\<rparr>)"

text \<open>
  The scan of \<open>OnObjectSignaled\<close>: the position of the first entry whose watch event is
  the signalled object; the length of the list (the end iterator) when there is none.
\<close>

fun find_signalled :: "HANDLE \<Rightarrow> KeyEntry list \<Rightarrow> nat" where
  "find_signalled object [] = 0"
| "find_signalled object (e # es) =
     (if watch_event e = object then 0 else Suc (find_signalled object es))"

definition erase :: "nat \<Rightarrow> 'a list \<Rightarrow> 'a list" where
  "erase i xs = take i xs @ drop (Suc i) xs"

datatype error = EndIteratorDereferenced

text \<open>
  \<open>OnObjectSignaled\<close>: the scan, then \<open>DCHECK(it != keys_to_watch.end())\<close>. In a
  release build the check is compiled out and \<open>*it\<close> reads the end iterator; the model
  stops there with an error. Otherwise the entry is re-armed in place, erased when that
  fails, and \<open>CheckForChangesNow\<close> of the superclass is called.
\<close>

definition OnObjectSignaled ::
  "'w platform \<Rightarrow> 'w ProxyConfigServiceWin \<Rightarrow> HANDLE \<Rightarrow> error + 'w ProxyConfigServiceWin" where
  "OnObjectSignaled P s object =
     (let it = find_signalled object (keys_to_watch s) in
      if it = length (keys_to_watch s) then Inl EndIteratorDereferenced
      else
        (case KeyEntry_StartWatching P (world s) (keys_to_watch s ! it) of
           (ok, e', w') \<Rightarrow>
             let keys' = (if \<not> ok then erase it (keys_to_watch s)
                          else (keys_to_watch s)[it := e'])
             in Inr (s\<lparr>keys_to_watch := keys',
                       polling_calls := polling_calls s @ [Polling_CheckForChangesNow],
                       world := w'\<rparr>)))"

subsection \<open>Sequences of operations\<close>

datatype operation = Op_AddObserver Observer | Op_ObjectSignaled HANDLE

fun apply_operation ::
  "'w platform \<Rightarrow> 'w ProxyConfigServiceWin \<Rightarrow> operation \<Rightarrow> error + 'w ProxyConfigServiceWin" where
  "apply_operation P s (Op_AddObserver observer) = Inr (AddObserver P s observer)"
| "apply_operation P s (Op_ObjectSignaled object) = OnObjectSignaled P s object"

fun run ::
  "'w platform \<Rightarrow> 'w ProxyConfigServiceWin \<Rightarrow> operation list
    \<Rightarrow> error + 'w ProxyConfigServiceWin" where
  "run P s [] = Inr s"
| "run P s (op # ops) =
     (case apply_operation P s op of
        Inl err \<Rightarrow> Inl err
      | Inr s' \<Rightarrow> run P s' ops)"

definition location :: "KeyEntry \<Rightarrow> (HKEY \<times> wstring) option" where
  "location e = opened_key (key e)"

text \<open>
  Before every \<open>AddObserver\<close> of the sequence the watch list is not empty, so that
  no call of the sequence runs the start-up again.
\<close>

fun no_restart :: "'w platform \<Rightarrow> 'w ProxyConfigServiceWin \<Rightarrow> operation list \<Rightarrow> bool" where
  "no_restart P s [] = True"
| "no_restart P s (op # ops) =
     ((case op of Op_AddObserver observer \<Rightarrow> keys_to_watch s \<noteq> [] | Op_ObjectSignaled object \<Rightarrow> True)
      \<and> (case apply_operation P s op of
            Inl err \<Rightarrow> True
          | Inr s' \<Rightarrow> no_restart P s' ops))"

definition watched_events :: "error + 'w ProxyConfigServiceWin \<Rightarrow> HANDLE list option" where
  "watched_events r =
     (case r of Inl err \<Rightarrow> None | Inr s \<Rightarrow> Some (map watch_event (keys_to_watch s)))"

subsection \<open>Fetching the configuration\<close>

text \<open>
  Modelled from the spec: \<open>ProxyConfig\<close> (net/proxy/proxy_config.h) is not part of the
  source file. The spec gives its shape: "auto-detect flag, per-scheme proxy rules,
  bypass list, PAC URL". The proxy rules \<open>'r\<close> and the bypass rules \<open>'b\<close> stay
  abstract; the bypass rules are a member of the proxy rules object, as
  \<open>config->proxy_rules().bypass_rules\<close> says.
\<close>

datatype GURL = GURL wstring

record ('r, 'b) ProxyRules =
  rules :: 'r
  bypass_rules :: 'b

record ('r, 'b) ProxyConfig =
  auto_detect :: bool
  proxy_rules :: "('r, 'b) ProxyRules"
  pac_url :: GURL

text \<open>
  The library functions the fetch calls, as parameters: \<open>ProxyConfig::CreateDirect\<close>,
  \<open>ProxyRules::ParseFromString\<close>, \<open>ProxyBypassRules::AddRuleFromString\<close>,
  \<open>WideToASCII\<close>, and \<open>StringTokenizer\<close> as the list of tokens it yields for a
  string and a set of delimiters.
\<close>

record ('r, 'b) proxy_library =
  CreateDirect :: "('r, 'b) ProxyConfig"
  ParseFromString :: "string \<Rightarrow> ('r, 'b) ProxyRules \<Rightarrow> ('r, 'b) ProxyRules"
  AddRuleFromString :: "string \<Rightarrow> 'b \<Rightarrow> 'b"
  WideToASCII :: "wstring \<Rightarrow> string"
  StringTokenizer :: "string \<Rightarrow> string \<Rightarrow> string list"

definition kBypassDelimiters :: string where
  "kBypassDelimiters = [CHR '';'', CHR '' '', CHR 0x09, CHR 0x0A, CHR 0x0D]"

text \<open>The \<open>while (GetNext())\<close> loop of \<open>SetFromIEConfig\<close>, over the tokens.\<close>

fun add_bypass_rules :: "('r, 'b) proxy_library \<Rightarrow> string list \<Rightarrow> 'b \<Rightarrow> 'b" where
  "add_bypass_rules L [] b = b"
| "add_bypass_rules L (bypass_url_domain # tokens) b =
     add_bypass_rules L tokens (AddRuleFromString L bypass_url_domain b)"

definition SetFromIEConfig ::
  "('r, 'b) proxy_library \<Rightarrow> ('r, 'b) ProxyConfig \<Rightarrow> WINHTTP_CURRENT_USER_IE_PROXY_CONFIG
    \<Rightarrow> ('r, 'b) ProxyConfig" where
  "SetFromIEConfig L config ie_config =
     (let c1 = (if fAutoDetect ie_config then config\<lparr>auto_detect := True\<rparr> else config);
          c2 = (case lpszProxy ie_config of
                  None \<Rightarrow> c1
                | Some proxy \<Rightarrow>
                    c1\<lparr>proxy_rules := ParseFromString L (WideToASCII L proxy) (proxy_rules c1)\<rparr>);
          c3 = (case lpszProxyBypass ie_config of
                  None \<Rightarrow> c2
                | Some bypass \<Rightarrow>
                    c2\<lparr>proxy_rules := (proxy_rules c2)
                        \<lparr>bypass_rules :=
                           add_bypass_rules L
                             (StringTokenizer L (WideToASCII L bypass) kBypassDelimiters)
                             (bypass_rules (proxy_rules c2))\<rparr>\<rparr>);
          c4 = (case lpszAutoConfigUrl ie_config of
                  None \<Rightarrow> c3
                | Some url \<Rightarrow> c3\<lparr>pac_url := GURL url\<rparr>)
      in c4)"

text \<open>
  \<open>GetCurrentProxyConfig\<close>: the out-parameter \<open>config\<close> comes in with the caller's
  value and the function returns what it holds at the end. \<open>FreeIEConfig\<close> releases the
  three strings and changes no value.
\<close>

definition GetCurrentProxyConfig ::
  "('r, 'b) proxy_library \<Rightarrow> 'w platform \<Rightarrow> 'w \<Rightarrow> ('r, 'b) ProxyConfig
    \<Rightarrow> ('r, 'b) ProxyConfig" where
  "GetCurrentProxyConfig L P w config =
     (case os_WinHttpGetIEProxyConfigForCurrentUser P w of
        (False, ie_config) \<Rightarrow> CreateDirect L
      | (True, ie_config) \<Rightarrow> SetFromIEConfig L config ie_config)"

subsection \<open>A scripted platform\<close>

text \<open>
  A platform whose world is the list of its future answers: every call takes the next
  one, \<open>None\<close> is a failure, \<open>Some h\<close> a success (with event handle \<open>h\<close> for a
  change notification); when the script is used up every call fails.
\<close>

definition ie_config_zero :: WINHTTP_CURRENT_USER_IE_PROXY_CONFIG where
  "ie_config_zero =
     \<lparr>fAutoDetect = False, lpszAutoConfigUrl = None, lpszProxy = None, lpszProxyBypass = None\<rparr>"

definition scripted :: "(HANDLE option list) platform" where
  "scripted =
     \<lparr>os_RegCreateKey = (\<lambda>w rootkey subkey access.
        case w of [] \<Rightarrow> (False, []) | r # w' \<Rightarrow> (r \<noteq> None, w')),
      os_RegNotifyChange = (\<lambda>w k. case w of [] \<Rightarrow> (None, []) | r # w' \<Rightarrow> (r, w')),
      os_WatchObject = (\<lambda>w object. case w of [] \<Rightarrow> (False, []) | r # w' \<Rightarrow> (r \<noteq> None, w')),
      os_WinHttpGetIEProxyConfigForCurrentUser = (\<lambda>w.
        case w of [] \<Rightarrow> (False, ie_config_zero)
        | r # w' \<Rightarrow> (r \<noteq> None, ie_config_zero\<lparr>fAutoDetect := True\<rparr>))\<rparr>"

text \<open>
  A library over strings: proxy rules are the string they were parsed from, bypass rules
  the list of the strings added, and a string is a single token.
\<close>

definition string_library :: "(string, string list) proxy_library" where
  "string_library =
     \<lparr>CreateDirect = \<lparr>auto_detect = False,
                       proxy_rules = \<lparr>rules = [], bypass_rules = []\<rparr>,
                       pac_url = GURL []\<rparr>,
      ParseFromString = (\<lambda>str r. r\<lparr>rules := str\<rparr>),
      AddRuleFromString = (\<lambda>str b. b @ [str]),
      WideToASCII = (\<lambda>str. str),
      StringTokenizer = (\<lambda>str delims. [str])\<rparr>"

text \<open>An entry that was created for a location and armed with the event handle \<open>h\<close>.\<close>

definition watched_entry :: "HKEY \<Rightarrow> wstring \<Rightarrow> HANDLE \<Rightarrow> KeyEntry" where
  "watched_entry rootkey subkey h =
     \<lparr>key = \<lparr>opened_key = Some (rootkey, subkey), watch_event_handle = h\<rparr>,
      watcher = \<lparr>watched_object = Some h\<rparr>\<rparr>"

definition two_keys_state :: "'w \<Rightarrow> 'w ProxyConfigServiceWin" where
  "two_keys_state w =
     (ProxyConfigServiceWin_ctor w)
       \<lparr>keys_to_watch := [watched_entry HKEY_CURRENT_USER kInternetSettings 5,
                          watched_entry HKEY_LOCAL_MACHINE kInternetSettings 7]\<rparr>"

text \<open>
  A script for three operations. The first start-up arms the per-user key with event 7
  and fails to create the other two keys; the re-arm after the first signal fails; the
  second start-up arms the per-user key with event 8 and the per-machine key with event
  9, and fails to create the policy key.
\<close>

definition regrow_script :: "HANDLE option list" where
  "regrow_script =
     [Some 0, Some 7, Some 0, None, None,
      None,
      Some 0, Some 8, Some 0, Some 0, Some 9, Some 0]"

text \<open>A configuration with every part set, over the string library.\<close>

definition sample_config :: "(string, string list) ProxyConfig" where
  "sample_config =
     \<lparr>auto_detect = True,
      proxy_rules = \<lparr>rules = ''http=old:80'', bypass_rules = [''localhost'']\<rparr>,
      pac_url = GURL ''http://pac.example/proxy.pac''\<rparr>"

subsection \<open>The polling core\<close>

text \<open>
  Modelled from the spec: \<open>PollingProxyConfigService\<close>
  (net/proxy/polling_proxy_config_service.cc) is not part of the source file. The spec
  (section 4.1) gives the core a \<open>lastKnownConfig\<close>, a \<open>fetchInFlight\<close> flag and a
  "recheck requested" flag. The fetch runs on a worker and its result comes back as a
  completion signal, so a cycle is two events: \<open>checkForChangesNow\<close> starts it and
  \<open>fetchCompleted\<close> ends it. The two counters record the cycles started and completed.
\<close>

record 'c PollingCore =
  lastKnownConfig :: "'c option"
  fetchInFlight :: bool
  recheckRequested :: bool
  notifications :: "'c list"
  cycles_started :: nat
  cycles_completed :: nat

definition PollingCore_init :: "'c PollingCore" where
  "PollingCore_init =
     \<lparr>lastKnownConfig = None, fetchInFlight = False, recheckRequested = False,
      notifications = [], cycles_started = 0, cycles_completed = 0\<rparr>"

text \<open>
  Modelled from the spec: "If a fetch is already in flight, marks a recheck requested
  flag and returns immediately. Otherwise: sets \<open>fetchInFlight = true\<close>, invokes
  ConfigFetcher".
\<close>

definition checkForChangesNow :: "'c PollingCore \<Rightarrow> 'c PollingCore" where
  "checkForChangesNow core =
     (if fetchInFlight core then core\<lparr>recheckRequested := True\<rparr>
      else core\<lparr>fetchInFlight := True, cycles_started := cycles_started core + 1\<rparr>)"

text \<open>
  Modelled from the spec: "compares result to \<open>lastKnownConfig\<close>: if different (or first
  fetch), update \<open>lastKnownConfig\<close>, notify every registered observer; if identical, no
  notification. Afterward, clears \<open>fetchInFlight\<close>; if recheck requested was set
  meanwhile, immediately re-runs the cycle once more".
\<close>

definition fetchCompleted :: "'c \<Rightarrow> 'c PollingCore \<Rightarrow> 'c PollingCore" where
  "fetchCompleted config core =
     (let core1 = (if lastKnownConfig core \<noteq> Some config
                   then core\<lparr>lastKnownConfig := Some config,
                              notifications := notifications core @ [config]\<rparr>
                   else core);
          core2 = core1\<lparr>fetchInFlight := False,
                         cycles_completed := cycles_completed core1 + 1\<rparr>
      in if recheckRequested core2
         then checkForChangesNow (core2\<lparr>recheckRequested := False\<rparr>)
         else core2)"

text \<open>
  Modelled from the spec: the events of the serializing context, a trigger (timer tick
  or watch fire) or the completion of the outstanding fetch. A completion is only
  delivered for a fetch that is in flight.
\<close>

datatype 'c core_event = Trigger | FetchDone 'c

fun core_step :: "'c PollingCore \<Rightarrow> 'c core_event \<Rightarrow> 'c PollingCore" where
  "core_step core Trigger = checkForChangesNow core"
| "core_step core (FetchDone config) =
     (if fetchInFlight core then fetchCompleted config core else core)"

text \<open>
  The number of cycles in flight, started minus completed, is one when \<open>fetchInFlight\<close>
  is set and zero otherwise.
\<close>

definition cycle_balance :: "'c PollingCore \<Rightarrow> bool" where
  "cycle_balance core =
     (cycles_started core = cycles_completed core + (if fetchInFlight core then 1 else 0))"

text \<open>
  What arming an entry comes to, in the words of the claims and in terms of the
  platform's answers alone: the change notification is registered on the key, then the
  wait on its event is accepted; a failure of either is an arming failure, and on success
  the entry carries the event. It is written without \<open>KeyEntry_StartWatching\<close>,
  to be compared with it.
\<close>

definition arm_outcome :: "'w platform \<Rightarrow> 'w \<Rightarrow> KeyEntry \<Rightarrow> KeyEntry option \<times> 'w" where
  "arm_outcome P w e =
     (case os_RegNotifyChange P w (key e) of
        (None, w1) \<Rightarrow> (None, w1)
      | (Some h, w1) \<Rightarrow>
          (case os_WatchObject P w1 h of
             (False, w2) \<Rightarrow> (None, w2)
           | (True, w2) \<Rightarrow>
               (Some (e\<lparr>key := (key e)\<lparr>watch_event_handle := h\<rparr>,
                        watcher := (watcher e)\<lparr>watched_object := Some h\<rparr>\<rparr>), w2)))"

text \<open>
  What one watched location comes to, in the same terms: the key is created, then the
  fresh entry is armed; a creation or arming failure yields no entry. It is written
  without \<open>AddKeyToWatchList\<close>, to be compared with it.
\<close>

definition location_outcome ::
  "'w platform \<Rightarrow> 'w \<Rightarrow> HKEY \<Rightarrow> wstring \<Rightarrow> KeyEntry option \<times> 'w" where
  "location_outcome P w rootkey subkey =
     (case os_RegCreateKey P w rootkey subkey KEY_NOTIFY of
        (False, w1) \<Rightarrow> (None, w1)
      | (True, w1) \<Rightarrow>
          arm_outcome P w1
            \<lparr>key = \<lparr>opened_key = Some (rootkey, subkey), watch_event_handle = 0\<rparr>,
             watcher = \<lparr>watched_object = None\<rparr>\<rparr>)"

fun entry_list :: "KeyEntry option \<Rightarrow> KeyEntry list" where
  "entry_list None = []"
| "entry_list (Some e) = [e]"

definition watched_keys :: "error + 'w ProxyConfigServiceWin \<Rightarrow> KeyEntry list option" where
  "watched_keys r = (case r of Inl err \<Rightarrow> None | Inr s \<Rightarrow> Some (keys_to_watch s))"

text \<open>
  A script for three operations. The first start-up arms the per-user key with event 7
  and fails to create the other two keys; the re-arm after the first signal fails; the
  second start-up arms the per-user key with event 7 again.
\<close>

definition readd_script :: "HANDLE option list" where
  "readd_script =
     [Some 0, Some 7, Some 0, None, None,
      None,
      Some 0, Some 7, Some 0]"

text \<open>
  A script for two start-ups: the first cannot create any key, the second arms the
  per-user key with event 7.
\<close>

definition late_success_script :: "HANDLE option list" where
  "late_success_script = [None, None, None, Some 0, Some 7, Some 0]"

text \<open>
  A script for one start-up: the per-user key cannot be created; the per-machine key is
  created and its change notification registered, but the wait on its event is refused;
  the policy key is armed with event 9.
\<close>

definition watcher_fails_script :: "HANDLE option list" where
  "watcher_fails_script = [None, Some 0, Some 8, None, Some 0, Some 9, Some 0]"

text \<open>
  A script for one start-up: the per-user key is created but its change notification
  cannot be registered; the per-machine key is armed with event 8; the policy key cannot
  be created.
\<close>

definition notify_fails_script :: "HANDLE option list" where
  "notify_fails_script = [Some 0, None, Some 0, Some 8, Some 0, None]"

lemmas eval_defs =
  AddObserver_def StartWatchingRegistryForChanges_def AddKeyToWatchList_def
  KeyEntry_CreateRegKey_def KeyEntry_StartWatching_def RegKey_Create_def
  RegKey_StartWatching_def ObjectWatcher_StartWatching_def KeyEntry_new_def scripted_def
  ProxyConfigServiceWin_ctor_def OnObjectSignaled_def watch_event_def erase_def
  watched_events_def Let_def watched_entry_def two_keys_state_def regrow_script_def
  location_def

section \<open>Properties\<close>

subsection \<open>Auxiliary facts\<close>

lemma RegKey_StartWatching_opened_key:
  assumes "RegKey_StartWatching P w k = (ok, k', w')"
  shows "opened_key k' = opened_key k"
proof (cases "os_RegNotifyChange P w k")
  case (Pair r w1)
  with assms show ?thesis
    by (cases r) (auto simp: RegKey_StartWatching_def)
qed

lemma KeyEntry_StartWatching_key:
  assumes "KeyEntry_StartWatching P w e = (ok, e', w')"
  shows "\<exists>b w1. RegKey_StartWatching P w (key e) = (b, key e', w1)"
proof -
  obtain b k1 w1 where r: "RegKey_StartWatching P w (key e) = (b, k1, w1)"
    by (cases "RegKey_StartWatching P w (key e)") auto
  obtain b2 ow2 w2 where o: "ObjectWatcher_StartWatching P w1 (watcher e) (watch_event_handle k1) = (b2, ow2, w2)"
    by (cases "ObjectWatcher_StartWatching P w1 (watcher e) (watch_event_handle k1)") auto
  from assms r o have "key e' = k1"
    by (cases b; cases b2; simp add: KeyEntry_StartWatching_def; fastforce)
  with r show ?thesis by blast
qed

lemma KeyEntry_StartWatching_location:
  assumes "KeyEntry_StartWatching P w e = (ok, e', w')"
  shows "location e' = location e"
proof -
  from KeyEntry_StartWatching_key [OF assms] obtain b w1
    where "RegKey_StartWatching P w (key e) = (b, key e', w1)" by blast
  then have "opened_key (key e') = opened_key (key e)"
    by (rule RegKey_StartWatching_opened_key)
  then show ?thesis by (simp add: location_def)
qed

lemma KeyEntry_CreateRegKey_location:
  assumes "KeyEntry_CreateRegKey P w e rootkey subkey = (True, e', w')"
  shows "location e' = Some (rootkey, subkey)"
proof (cases "os_RegCreateKey P w rootkey subkey KEY_NOTIFY")
  case (Pair b w1)
  with assms show ?thesis
    by (cases b) (auto simp: KeyEntry_CreateRegKey_def RegKey_Create_def location_def)
qed

lemma AddKeyToWatchList_unfold:
  assumes "KeyEntry_CreateRegKey P (world s) KeyEntry_new rootkey subkey = (created, e1, w1)"
      and "KeyEntry_StartWatching P w1 e1 = (armed, e2, w2)"
  shows "AddKeyToWatchList P s rootkey subkey =
           (if created
            then if armed
                 then (True, s\<lparr>keys_to_watch := keys_to_watch s @ [e2], world := w2\<rparr>)
                 else (False, s\<lparr>world := w2\<rparr>)
            else (False, s\<lparr>world := w1\<rparr>))"
  using assms by (cases created; cases armed; simp add: AddKeyToWatchList_def)

lemma AddKeyToWatchList_keys:
  assumes "AddKeyToWatchList P s rootkey subkey = (ok, s')"
  shows "\<exists>e. location e = Some (rootkey, subkey) \<and>
           keys_to_watch s' = (if ok then keys_to_watch s @ [e] else keys_to_watch s)"
proof -
  obtain c e1 w1
    where c: "KeyEntry_CreateRegKey P (world s) KeyEntry_new rootkey subkey = (c, e1, w1)"
    by (cases "KeyEntry_CreateRegKey P (world s) KeyEntry_new rootkey subkey") auto
  obtain a e2 w2 where a: "KeyEntry_StartWatching P w1 e1 = (a, e2, w2)"
    by (cases "KeyEntry_StartWatching P w1 e1") auto
  note u = AddKeyToWatchList_unfold [OF c a]
  show ?thesis
  proof (cases "c \<and> a")
    case True
    have "location e1 = Some (rootkey, subkey)"
      using c True by (auto intro: KeyEntry_CreateRegKey_location)
    then have "location e2 = Some (rootkey, subkey)"
      using KeyEntry_StartWatching_location [OF a] by simp
    moreover have "ok \<and> keys_to_watch s' = keys_to_watch s @ [e2]"
      using u True assms by auto
    ultimately show ?thesis by auto
  next
    case False
    then have "\<not> ok \<and> keys_to_watch s' = keys_to_watch s"
      using u assms by (auto split: if_splits)
    moreover have "location \<lparr>key = \<lparr>opened_key = Some (rootkey, subkey), watch_event_handle = 0\<rparr>,
                             watcher = \<lparr>watched_object = None\<rparr>\<rparr> = Some (rootkey, subkey)"
      by (simp add: location_def)
    ultimately show ?thesis by metis
  qed
qed

lemma AddKeyToWatchList_frame:
  assumes "AddKeyToWatchList P s rootkey subkey = (ok, s')"
  shows "poll_interval s' = poll_interval s \<and> polling_calls s' = polling_calls s
     \<and> get_config_func s' = get_config_func s"
proof -
  obtain c e1 w1
    where c: "KeyEntry_CreateRegKey P (world s) KeyEntry_new rootkey subkey = (c, e1, w1)"
    by (cases "KeyEntry_CreateRegKey P (world s) KeyEntry_new rootkey subkey") auto
  obtain a e2 w2 where a: "KeyEntry_StartWatching P w1 e1 = (a, e2, w2)"
    by (cases "KeyEntry_StartWatching P w1 e1") auto
  show ?thesis
    using AddKeyToWatchList_unfold [OF c a] assms by (cases c; cases a; auto)
qed

lemma find_signalled_le: "find_signalled object es \<le> length es"
  by (induction es) auto

lemma find_signalled_end:
  "(find_signalled object es = length es) = (\<forall>e \<in> set es. watch_event e \<noteq> object)"
proof (induction es)
  case Nil
  show ?case by simp
next
  case (Cons e es)
  have "find_signalled object es \<le> length es" by (rule find_signalled_le)
  with Cons show ?case by auto
qed

lemma find_signalled_hit:
  "find_signalled object es < length es \<Longrightarrow> watch_event (es ! find_signalled object es) = object"
  by (induction es) (auto split: if_splits)

lemma find_signalled_first:
  "\<forall>e \<in> set pre. watch_event e \<noteq> watch_event E \<Longrightarrow>
     find_signalled (watch_event E) (pre @ E # post) = length pre"
  by (induction pre) auto

lemma OnObjectSignaled_end:
  "find_signalled object (keys_to_watch s) = length (keys_to_watch s) \<Longrightarrow>
     OnObjectSignaled P s object = Inl EndIteratorDereferenced"
  by (simp add: OnObjectSignaled_def)

lemma OnObjectSignaled_unfold:
  assumes "find_signalled object (keys_to_watch s) = i"
      and "i \<noteq> length (keys_to_watch s)"
      and "KeyEntry_StartWatching P (world s) (keys_to_watch s ! i) = (ok, e', w')"
  shows "OnObjectSignaled P s object =
           Inr (s\<lparr>keys_to_watch := (if ok then (keys_to_watch s)[i := e']
                                    else erase i (keys_to_watch s)),
                  polling_calls := polling_calls s @ [Polling_CheckForChangesNow],
                  world := w'\<rparr>)"
  using assms by (cases ok) (simp_all add: OnObjectSignaled_def)

lemma erase_middle: "erase (length pre) (pre @ x # post) = pre @ post"
  by (simp add: erase_def)

lemma subseq_erase: "subseq (erase i xs) xs"
proof (cases "i < length xs")
  case True
  have "subseq (drop (Suc i) xs) (xs ! i # drop (Suc i) xs)"
    by (intro list_emb_Cons subseq_order.order_refl)
  then have "subseq (drop (Suc i) xs) (drop i xs)"
    using True by (simp add: Cons_nth_drop_Suc)
  then have "subseq (take i xs @ drop (Suc i) xs) (take i xs @ drop i xs)"
    by (simp only: subseq_append')
  then show ?thesis by (simp add: erase_def)
next
  case False
  then show ?thesis by (simp add: erase_def)
qed

lemma OnObjectSignaled_locations:
  assumes "OnObjectSignaled P s object = Inr s'"
  shows "subseq (map location (keys_to_watch s')) (map location (keys_to_watch s))"
proof -
  define i where "i = find_signalled object (keys_to_watch s)"
  have ne: "i \<noteq> length (keys_to_watch s)"
    using assms OnObjectSignaled_end [of object s P] i_def by auto
  then have lt: "i < length (keys_to_watch s)"
    using find_signalled_le [of object "keys_to_watch s"] i_def by simp
  obtain ok e' w'
    where a: "KeyEntry_StartWatching P (world s) (keys_to_watch s ! i) = (ok, e', w')"
    by (cases "KeyEntry_StartWatching P (world s) (keys_to_watch s ! i)") auto
  have k: "keys_to_watch s' =
      (if ok then (keys_to_watch s)[i := e'] else erase i (keys_to_watch s))"
    using OnObjectSignaled_unfold [OF i_def [symmetric] ne a] assms by auto
  show ?thesis
  proof (cases ok)
    case True
    have "location e' = location (keys_to_watch s ! i)"
      by (rule KeyEntry_StartWatching_location [OF a])
    then have "map location ((keys_to_watch s)[i := e']) = map location (keys_to_watch s)"
      using lt by (simp add: map_update list_update_same_conv)
    with True k show ?thesis by simp
  next
    case False
    with k show ?thesis by (simp add: subseq_erase subseq_map)
  qed
qed

lemma StartWatchingRegistryForChanges_initialized:
  "keys_to_watch s \<noteq> [] \<Longrightarrow> StartWatchingRegistryForChanges P s = s"
  by (simp add: StartWatchingRegistryForChanges_def)

lemma AddObserver_initialized_keys:
  "keys_to_watch s \<noteq> [] \<Longrightarrow> keys_to_watch (AddObserver P s observer) = keys_to_watch s"
  by (simp add: AddObserver_def StartWatchingRegistryForChanges_initialized)

lemma StartWatchingRegistryForChanges_unfold:
  assumes "keys_to_watch s = []"
      and "AddKeyToWatchList P s HKEY_CURRENT_USER kInternetSettings = (ok1, s1)"
      and "AddKeyToWatchList P s1 HKEY_LOCAL_MACHINE kInternetSettings = (ok2, s2)"
      and "AddKeyToWatchList P s2 HKEY_LOCAL_MACHINE kPoliciesInternetSettings = (ok3, s3)"
  shows "StartWatchingRegistryForChanges P s = s3"
  using assms by (simp add: StartWatchingRegistryForChanges_def)

lemma StartWatchingRegistryForChanges_frame:
  "poll_interval (StartWatchingRegistryForChanges P s) = poll_interval s \<and>
   polling_calls (StartWatchingRegistryForChanges P s) = polling_calls s"
proof (cases "keys_to_watch s = []")
  case False
  then show ?thesis by (simp add: StartWatchingRegistryForChanges_def)
next
  case True
  obtain ok1 s1 where a1: "AddKeyToWatchList P s HKEY_CURRENT_USER kInternetSettings = (ok1, s1)"
    by (cases "AddKeyToWatchList P s HKEY_CURRENT_USER kInternetSettings") auto
  obtain ok2 s2 where a2: "AddKeyToWatchList P s1 HKEY_LOCAL_MACHINE kInternetSettings = (ok2, s2)"
    by (cases "AddKeyToWatchList P s1 HKEY_LOCAL_MACHINE kInternetSettings") auto
  obtain ok3 s3
    where a3: "AddKeyToWatchList P s2 HKEY_LOCAL_MACHINE kPoliciesInternetSettings = (ok3, s3)"
    by (cases "AddKeyToWatchList P s2 HKEY_LOCAL_MACHINE kPoliciesInternetSettings") auto
  have "StartWatchingRegistryForChanges P s = s3"
    by (rule StartWatchingRegistryForChanges_unfold [OF True a1 a2 a3])
  then show ?thesis
    using AddKeyToWatchList_frame [OF a1] AddKeyToWatchList_frame [OF a2]
      AddKeyToWatchList_frame [OF a3] by simp
qed

lemma AddObserver_poll_interval:
  "poll_interval (AddObserver P s observer) = poll_interval s"
  using StartWatchingRegistryForChanges_frame [of P s] by (simp add: AddObserver_def Let_def)

lemma OnObjectSignaled_poll_interval:
  assumes "OnObjectSignaled P s object = Inr s'"
  shows "poll_interval s' = poll_interval s"
proof -
  have ne: "find_signalled object (keys_to_watch s) \<noteq> length (keys_to_watch s)"
    using assms OnObjectSignaled_end [of object s P] by auto
  obtain ok e' w'
    where a: "KeyEntry_StartWatching P (world s)
                (keys_to_watch s ! find_signalled object (keys_to_watch s)) = (ok, e', w')"
    by (cases "KeyEntry_StartWatching P (world s)
                (keys_to_watch s ! find_signalled object (keys_to_watch s))") auto
  show ?thesis
    using OnObjectSignaled_unfold [OF refl ne a] assms by auto
qed

lemma run_poll_interval:
  "run P s ops = Inr s' \<Longrightarrow> poll_interval s' = poll_interval s"
proof (induction ops arbitrary: s)
  case Nil
  then show ?case by simp
next
  case (Cons op ops)
  from Cons.prems obtain s1 where s1: "apply_operation P s op = Inr s1"
    and r: "run P s1 ops = Inr s'"
    by (cases "apply_operation P s op") auto
  have "poll_interval s1 = poll_interval s"
    using s1 by (cases op) (auto simp: AddObserver_poll_interval OnObjectSignaled_poll_interval)
  with Cons.IH [OF r] show ?case by simp
qed

lemma apply_operation_locations:
  assumes "apply_operation P s op = Inr s'"
      and "case op of Op_AddObserver observer \<Rightarrow> keys_to_watch s \<noteq> [] | Op_ObjectSignaled object \<Rightarrow> True"
  shows "subseq (map location (keys_to_watch s')) (map location (keys_to_watch s))"
proof (cases op)
  case (Op_AddObserver observer)
  with assms show ?thesis by (auto simp: AddObserver_initialized_keys)
next
  case (Op_ObjectSignaled object)
  with assms show ?thesis by (auto intro: OnObjectSignaled_locations)
qed

lemma cycle_balance_step:
  "cycle_balance core \<Longrightarrow> cycle_balance (core_step core ev)"
  by (cases ev) (auto simp: cycle_balance_def checkForChangesNow_def fetchCompleted_def Let_def)

lemma cycle_balance_run:
  "cycle_balance core \<Longrightarrow> cycle_balance (foldl core_step core evs)"
  by (induction evs arbitrary: core) (simp_all add: cycle_balance_step)

lemma triggers_in_flight:
  "fetchInFlight core \<Longrightarrow>
     (checkForChangesNow ^^ N) core = (if N = 0 then core else core\<lparr>recheckRequested := True\<rparr>)"
proof (induction N)
  case 0
  show ?case by simp
next
  case (Suc N)
  then show ?case by (simp add: checkForChangesNow_def)
qed

lemma KeyEntry_StartWatching_outcome:
  assumes "arm_outcome P w e = (r, w')"
  shows "fst (KeyEntry_StartWatching P w e) = (r \<noteq> None) \<and>
         snd (snd (KeyEntry_StartWatching P w e)) = w' \<and>
         (r \<noteq> None \<longrightarrow> Some (fst (snd (KeyEntry_StartWatching P w e))) = r)"
proof (cases "os_RegNotifyChange P w (key e)")
  case (Pair n w1)
  show ?thesis
  proof (cases n)
    case None
    with Pair assms show ?thesis
      by (auto simp: arm_outcome_def KeyEntry_StartWatching_def RegKey_StartWatching_def)
  next
    case (Some h)
    obtain b w2 where o: "os_WatchObject P w1 h = (b, w2)"
      by (cases "os_WatchObject P w1 h") auto
    with Pair Some assms show ?thesis
      by (cases b)
         (auto simp: arm_outcome_def KeyEntry_StartWatching_def RegKey_StartWatching_def
            ObjectWatcher_StartWatching_def)
  qed
qed

lemma AddKeyToWatchList_outcome:
  assumes "location_outcome P (world s) rootkey subkey = (r, w')"
  shows "AddKeyToWatchList P s rootkey subkey =
           (r \<noteq> None, s\<lparr>keys_to_watch := keys_to_watch s @ entry_list r, world := w'\<rparr>)"
proof (cases "os_RegCreateKey P (world s) rootkey subkey KEY_NOTIFY")
  case (Pair c w1)
  let ?e = "\<lparr>key = \<lparr>opened_key = Some (rootkey, subkey), watch_event_handle = 0\<rparr>,
             watcher = \<lparr>watched_object = None\<rparr>\<rparr>"
  show ?thesis
  proof (cases c)
    case False
    have "KeyEntry_CreateRegKey P (world s) KeyEntry_new rootkey subkey = (False, KeyEntry_new, w1)"
      using Pair False by (simp add: KeyEntry_CreateRegKey_def RegKey_Create_def)
    moreover obtain a e2 w2 where "KeyEntry_StartWatching P w1 KeyEntry_new = (a, e2, w2)"
      by (cases "KeyEntry_StartWatching P w1 KeyEntry_new") auto
    ultimately have "AddKeyToWatchList P s rootkey subkey = (False, s\<lparr>world := w1\<rparr>)"
      using AddKeyToWatchList_unfold by fastforce
    moreover have "r = None \<and> w' = w1"
      using assms Pair False by (simp add: location_outcome_def)
    ultimately show ?thesis by simp
  next
    case True
    have c: "KeyEntry_CreateRegKey P (world s) KeyEntry_new rootkey subkey = (True, ?e, w1)"
      using Pair True
      by (simp add: KeyEntry_CreateRegKey_def RegKey_Create_def KeyEntry_new_def)
    have o: "arm_outcome P w1 ?e = (r, w')"
      using assms Pair True by (simp add: location_outcome_def)
    obtain a e2 w2 where a: "KeyEntry_StartWatching P w1 ?e = (a, e2, w2)"
      by (cases "KeyEntry_StartWatching P w1 ?e") auto
    have k: "a = (r \<noteq> None) \<and> w2 = w' \<and> (r \<noteq> None \<longrightarrow> Some e2 = r)"
      using KeyEntry_StartWatching_outcome [OF o] a by simp
    show ?thesis
    proof (cases r)
      case None
      with k AddKeyToWatchList_unfold [OF c a] show ?thesis by simp
    next
      case (Some e')
      with k AddKeyToWatchList_unfold [OF c a] show ?thesis by auto
    qed
  qed
qed

lemma OnObjectSignaled_outcome:
  assumes "keys_to_watch s = pre @ E # post"
      and "\<forall>e \<in> set pre. watch_event e \<noteq> watch_event E"
      and "arm_outcome P (world s) E = (r, w')"
  shows "OnObjectSignaled P s (watch_event E) =
           Inr (s\<lparr>keys_to_watch := pre @ entry_list r @ post,
                  polling_calls := polling_calls s @ [Polling_CheckForChangesNow],
                  world := w'\<rparr>)"
proof -
  have i: "find_signalled (watch_event E) (keys_to_watch s) = length pre"
    using assms(1,2) by (simp add: find_signalled_first)
  have ne: "length pre \<noteq> length (keys_to_watch s)"
    using assms(1) by simp
  obtain a e2 w2 where a: "KeyEntry_StartWatching P (world s) E = (a, e2, w2)"
    by (cases "KeyEntry_StartWatching P (world s) E") auto
  have k: "a = (r \<noteq> None) \<and> w2 = w' \<and> (r \<noteq> None \<longrightarrow> Some e2 = r)"
    using KeyEntry_StartWatching_outcome [OF assms(3)] a by simp
  have a': "KeyEntry_StartWatching P (world s) (keys_to_watch s ! length pre) = (a, e2, w2)"
    using assms(1) a by simp
  show ?thesis
  proof (cases r)
    case None
    with k OnObjectSignaled_unfold [OF i ne a'] assms(1) show ?thesis
      by (simp add: erase_middle)
  next
    case (Some e')
    with k OnObjectSignaled_unfold [OF i ne a'] assms(1) show ?thesis
      by auto
  qed
qed

lemma run_locations:
  assumes "run P s ops = Inr s'"
      and "no_restart P s ops"
  shows "subseq (map location (keys_to_watch s')) (map location (keys_to_watch s))"
  using assms
proof (induction ops arbitrary: s)
  case Nil
  then show ?case by simp
next
  case (Cons op ops)
  from Cons.prems(1) obtain s1 where s1: "apply_operation P s op = Inr s1"
    and r: "run P s1 ops = Inr s'"
    by (cases "apply_operation P s op") auto
  from Cons.prems(2) s1 have g: "case op of Op_AddObserver observer \<Rightarrow> keys_to_watch s \<noteq> [] | Op_ObjectSignaled object \<Rightarrow> True"
    and n: "no_restart P s1 ops"
    by auto
  have "subseq (map location (keys_to_watch s1)) (map location (keys_to_watch s))"
    by (rule apply_operation_locations [OF s1 g])
  moreover have "subseq (map location (keys_to_watch s')) (map location (keys_to_watch s1))"
    by (rule Cons.IH [OF r n])
  ultimately show ?case by (rule subseq_order.trans [rotated])
qed

lemma AddObserver_initialized:
  "keys_to_watch s \<noteq> [] \<Longrightarrow>
     AddObserver P s observer = s\<lparr>polling_calls := polling_calls s @ [Polling_AddObserver observer]\<rparr>"
  by (simp add: AddObserver_def StartWatchingRegistryForChanges_initialized)

lemma AddObservers_initialized:
  "keys_to_watch s \<noteq> [] \<Longrightarrow>
     foldl (AddObserver P) s observers =
       s\<lparr>polling_calls := polling_calls s @ map Polling_AddObserver observers\<rparr>"
proof (induction observers arbitrary: s)
  case Nil
  show ?case by simp
next
  case (Cons observer observers)
  have k: "keys_to_watch (AddObserver P s observer) \<noteq> []"
    using Cons.prems by (simp add: AddObserver_initialized)
  show ?case
    using Cons.IH [OF k] Cons.prems by (simp add: AddObserver_initialized)
qed

lemma arm_outcome_location:
  assumes "arm_outcome P w e = (Some e', w')"
  shows "location e' = location e"
proof (cases "os_RegNotifyChange P w (key e)")
  case (Pair n w1)
  show ?thesis
  proof (cases n)
    case None
    with Pair assms show ?thesis by (simp add: arm_outcome_def)
  next
    case (Some h)
    obtain b w2 where "os_WatchObject P w1 h = (b, w2)"
      by (cases "os_WatchObject P w1 h") auto
    with Pair Some assms show ?thesis
      by (cases b) (auto simp: arm_outcome_def location_def)
  qed
qed

lemma location_outcome_location:
  assumes "location_outcome P w rootkey subkey = (Some e, w')"
  shows "location e = Some (rootkey, subkey)"
proof (cases "os_RegCreateKey P w rootkey subkey KEY_NOTIFY")
  case (Pair c w1)
  show ?thesis
  proof (cases c)
    case False
    with Pair assms show ?thesis by (simp add: location_outcome_def)
  next
    case True
    with Pair assms have "arm_outcome P w1
        \<lparr>key = \<lparr>opened_key = Some (rootkey, subkey), watch_event_handle = 0\<rparr>,
         watcher = \<lparr>watched_object = None\<rparr>\<rparr> = (Some e, w')"
      by (simp add: location_outcome_def)
    from arm_outcome_location [OF this] show ?thesis
      by (simp add: location_def)
  qed
qed

lemma location_outcome_locations:
  assumes "location_outcome P w rootkey subkey = (r, w')"
  shows "map location (entry_list r) = (if r = None then [] else [Some (rootkey, subkey)])"
proof (cases r)
  case None
  then show ?thesis by simp
next
  case (Some e)
  with assms location_outcome_location [of P w rootkey subkey e w'] show ?thesis by simp
qed

lemma subseq_subset: "subseq xs ys \<Longrightarrow> set xs \<subseteq> set ys"
  by (induction rule: list_emb.induct) auto

subsection \<open>The claims\<close>

text \<open>
  Claim C1 as stated fails in its word "permanently". The first start-up watches the
  per-user key with event 7; the re-arm after the signal fails and the entry is erased;
  the next \<open>AddObserver\<close> finds the list empty, runs the start-up again and the
  same entry is watched again.
\<close>

theorem entry_watched_again_counterexample:
  "watched_keys (run scripted (ProxyConfigServiceWin_ctor readd_script)
      [Op_AddObserver 1]) = Some [watched_entry HKEY_CURRENT_USER kInternetSettings 7] \<and>
   watched_keys (run scripted (ProxyConfigServiceWin_ctor readd_script)
      [Op_AddObserver 1, Op_ObjectSignaled 7]) = Some [] \<and>
   watched_keys (run scripted (ProxyConfigServiceWin_ctor readd_script)
      [Op_AddObserver 1, Op_ObjectSignaled 7, Op_AddObserver 2])
     = Some [watched_entry HKEY_CURRENT_USER kInternetSettings 7]"
  by (simp add: eval_defs watched_keys_def readd_script_def)

text \<open>
  Claim C1, amended. A watch fire delivered for a watched entry \<open>E\<close> (the first
  entry of the list with \<open>E\<close>'s watch event) re-arms \<open>E\<close>: the change
  notification, then the wait on the event. When both succeed the re-armed entry stays at
  its place; when either fails \<open>E\<close> is erased from the list. In both cases the calls
  into the superclass grow by exactly one \<open>CheckForChangesNow\<close>. After a failed
  re-arm, along every sequence of operations in which no \<open>AddObserver\<close> finds the
  list empty, the locations watched are a subsequence of those that were left, so the
  location of \<open>E\<close> stays out when no other entry watches it.
\<close>

theorem OnObjectSignaled_rearms:
  assumes "keys_to_watch s = pre @ E # post"
      and "\<forall>e \<in> set pre. watch_event e \<noteq> watch_event E"
      and "arm_outcome P (world s) E = (r, w')"
  shows "OnObjectSignaled P s (watch_event E) =
           Inr (s\<lparr>keys_to_watch := pre @ entry_list r @ post,
                  polling_calls := polling_calls s @ [Polling_CheckForChangesNow],
                  world := w'\<rparr>) \<and>
         (r = None \<longrightarrow>
            (\<forall>s' ops s''.
               OnObjectSignaled P s (watch_event E) = Inr s' \<longrightarrow>
               run P s' ops = Inr s'' \<longrightarrow> no_restart P s' ops \<longrightarrow>
                 subseq (map location (keys_to_watch s'')) (map location (pre @ post)) \<and>
                 (location E \<notin> set (map location (pre @ post)) \<longrightarrow>
                    location E \<notin> set (map location (keys_to_watch s'')))))"
proof (intro conjI impI allI)
  show step: "OnObjectSignaled P s (watch_event E) =
           Inr (s\<lparr>keys_to_watch := pre @ entry_list r @ post,
                  polling_calls := polling_calls s @ [Polling_CheckForChangesNow],
                  world := w'\<rparr>)"
    by (rule OnObjectSignaled_outcome [OF assms])
  fix s' ops s''
  assume none: "r = None"
    and s': "OnObjectSignaled P s (watch_event E) = Inr s'"
    and r: "run P s' ops = Inr s''"
    and n: "no_restart P s' ops"
  from step s' have "s' = s\<lparr>keys_to_watch := pre @ entry_list r @ post,
                  polling_calls := polling_calls s @ [Polling_CheckForChangesNow],
                  world := w'\<rparr>"
    by simp
  then have "keys_to_watch s' = pre @ entry_list r @ post"
    by simp
  with none have "keys_to_watch s' = pre @ post"
    by simp
  then show sub: "subseq (map location (keys_to_watch s'')) (map location (pre @ post))"
    using run_locations [OF r n] by simp
  assume "location E \<notin> set (map location (pre @ post))"
  then show "location E \<notin> set (map location (keys_to_watch s''))"
    using subseq_subset [OF sub] by blast
qed

text \<open>
  The three outcomes of C1 on a list of two entries, for the entry with event 7: the
  change notification fails, the wait on the event is refused, and both succeed with the
  new event 8; and after the first, a further \<open>AddObserver\<close> does not bring the
  per-machine location back.
\<close>

theorem OnObjectSignaled_rearms_witness:
  "OnObjectSignaled scripted (two_keys_state [None]) 7 =
     Inr ((two_keys_state [None])
            \<lparr>keys_to_watch := [watched_entry HKEY_CURRENT_USER kInternetSettings 5],
             polling_calls := [Polling_CheckForChangesNow],
             world := []\<rparr>) \<and>
   OnObjectSignaled scripted (two_keys_state [Some 7, None]) 7 =
     Inr ((two_keys_state [Some 7, None])
            \<lparr>keys_to_watch := [watched_entry HKEY_CURRENT_USER kInternetSettings 5],
             polling_calls := [Polling_CheckForChangesNow],
             world := []\<rparr>) \<and>
   OnObjectSignaled scripted (two_keys_state [Some 8, Some 0]) 7 =
     Inr ((two_keys_state [Some 8, Some 0])
            \<lparr>keys_to_watch := [watched_entry HKEY_CURRENT_USER kInternetSettings 5,
                               watched_entry HKEY_LOCAL_MACHINE kInternetSettings 8],
             polling_calls := [Polling_CheckForChangesNow],
             world := []\<rparr>) \<and>
   Some (HKEY_LOCAL_MACHINE, kInternetSettings) \<notin>
     set (map location (keys_to_watch
       ((two_keys_state [None])
            \<lparr>keys_to_watch := [watched_entry HKEY_CURRENT_USER kInternetSettings 5],
             polling_calls := [Polling_CheckForChangesNow, Polling_AddObserver 2],
             world := []\<rparr>)))"
proof -
  let ?e5 = "watched_entry HKEY_CURRENT_USER kInternetSettings 5"
  let ?e7 = "watched_entry HKEY_LOCAL_MACHINE kInternetSettings 7"
  let ?s1 = "(two_keys_state [None])
            \<lparr>keys_to_watch := [?e5],
             polling_calls := [Polling_CheckForChangesNow],
             world := []\<rparr>"
  let ?s2 = "(two_keys_state [None])
            \<lparr>keys_to_watch := [?e5],
             polling_calls := [Polling_CheckForChangesNow, Polling_AddObserver 2],
             world := []\<rparr>"
  have ev: "watch_event ?e7 = 7" "watch_event ?e5 = 5"
    by (simp_all add: watch_event_def watched_entry_def)
  have k: "keys_to_watch (two_keys_state w) = [?e5] @ ?e7 # []" for w :: "HANDLE option list"
    by (simp add: two_keys_state_def)
  have f: "\<forall>e \<in> set [?e5]. watch_event e \<noteq> watch_event ?e7"
    by (simp add: ev)
  have p: "polling_calls (two_keys_state w) = []" for w :: "HANDLE option list"
    by (simp add: two_keys_state_def ProxyConfigServiceWin_ctor_def)
  have a1: "arm_outcome scripted (world (two_keys_state [None])) ?e7 = (None, [])"
    by (simp add: arm_outcome_def scripted_def two_keys_state_def ProxyConfigServiceWin_ctor_def)
  have a2: "arm_outcome scripted (world (two_keys_state [Some 7, None])) ?e7 = (None, [])"
    by (simp add: arm_outcome_def scripted_def two_keys_state_def ProxyConfigServiceWin_ctor_def)
  have a3: "arm_outcome scripted (world (two_keys_state [Some 8, Some 0])) ?e7 =
              (Some (watched_entry HKEY_LOCAL_MACHINE kInternetSettings 8), [])"
    by (simp add: arm_outcome_def scripted_def two_keys_state_def ProxyConfigServiceWin_ctor_def
        watched_entry_def)
  note t1 = OnObjectSignaled_rearms [OF k f a1]
  note t2 = OnObjectSignaled_rearms [OF k f a2]
  note t3 = OnObjectSignaled_rearms [OF k f a3]
  have o1: "OnObjectSignaled scripted (two_keys_state [None]) 7 = Inr ?s1"
    using t1 by (simp add: ev p)
  have o2: "OnObjectSignaled scripted (two_keys_state [Some 7, None]) 7 =
     Inr ((two_keys_state [Some 7, None])
            \<lparr>keys_to_watch := [?e5],
             polling_calls := [Polling_CheckForChangesNow],
             world := []\<rparr>)"
    using t2 by (simp add: ev p)
  have o3: "OnObjectSignaled scripted (two_keys_state [Some 8, Some 0]) 7 =
     Inr ((two_keys_state [Some 8, Some 0])
            \<lparr>keys_to_watch := [?e5, watched_entry HKEY_LOCAL_MACHINE kInternetSettings 8],
             polling_calls := [Polling_CheckForChangesNow],
             world := []\<rparr>)"
    using t3 by (simp add: ev p)
  have r: "run scripted ?s1 [Op_AddObserver 2] = Inr ?s2"
    by (simp add: AddObserver_def StartWatchingRegistryForChanges_def)
  have n: "no_restart scripted ?s1 [Op_AddObserver 2]"
    by simp
  have l: "location ?e7 = Some (HKEY_LOCAL_MACHINE, kInternetSettings)"
    "location ?e7 \<notin> set (map location ([?e5] @ []))"
    by (simp_all add: location_def watched_entry_def)
  have o1': "OnObjectSignaled scripted (two_keys_state [None]) (watch_event ?e7) = Inr ?s1"
    using o1 by (simp add: ev)
  from t1 have q: "\<forall>s' ops s''.
               OnObjectSignaled scripted (two_keys_state [None]) (watch_event ?e7) = Inr s' \<longrightarrow>
               run scripted s' ops = Inr s'' \<longrightarrow> no_restart scripted s' ops \<longrightarrow>
                 subseq (map location (keys_to_watch s'')) (map location ([?e5] @ [])) \<and>
                 (location ?e7 \<notin> set (map location ([?e5] @ [])) \<longrightarrow>
                    location ?e7 \<notin> set (map location (keys_to_watch s'')))"
    by simp
  note c = q [rule_format, OF o1' r n]
  have "location ?e7 \<notin> set (map location (keys_to_watch ?s2))"
    using c l(2) by simp
  then show ?thesis
    using o1 o2 o3 l(1) by simp
qed

text \<open>
Claim C2. When \<open>WinHttpGetIEProxyConfigForCurrentUser\<close> reports failure, the
  configuration handed back is \<open>ProxyConfig::CreateDirect()\<close>, whatever the
  out-parameter held before; when it succeeds, it is the caller's configuration updated by
  \<open>SetFromIEConfig\<close>. The function has no error result: every call yields a
  configuration.
\<close>

theorem GetCurrentProxyConfig_failure_direct:
  "(\<not> fst (os_WinHttpGetIEProxyConfigForCurrentUser P w) \<longrightarrow>
      GetCurrentProxyConfig L P w config = CreateDirect L) \<and>
   (fst (os_WinHttpGetIEProxyConfigForCurrentUser P w) \<longrightarrow>
      GetCurrentProxyConfig L P w config =
        SetFromIEConfig L config (snd (os_WinHttpGetIEProxyConfigForCurrentUser P w)))"
  by (cases "os_WinHttpGetIEProxyConfigForCurrentUser P w")
     (auto simp: GetCurrentProxyConfig_def)

theorem GetCurrentProxyConfig_failure_direct_witness:
  "GetCurrentProxyConfig string_library scripted []
     \<lparr>auto_detect = True, proxy_rules = \<lparr>rules = ''old'', bypass_rules = [''x'']\<rparr>,
      pac_url = GURL ''http://pac''\<rparr> = CreateDirect string_library \<and>
   GetCurrentProxyConfig string_library scripted [Some 0]
     \<lparr>auto_detect = False, proxy_rules = \<lparr>rules = ''old'', bypass_rules = [''x'']\<rparr>,
      pac_url = GURL ''http://pac''\<rparr> =
     \<lparr>auto_detect = True, proxy_rules = \<lparr>rules = ''old'', bypass_rules = [''x'']\<rparr>,
      pac_url = GURL ''http://pac''\<rparr>"
proof -
  have f: "\<not> fst (os_WinHttpGetIEProxyConfigForCurrentUser scripted [])"
    by (simp add: scripted_def)
  have t: "fst (os_WinHttpGetIEProxyConfigForCurrentUser scripted [Some 0])"
    by (simp add: scripted_def)
  have s: "snd (os_WinHttpGetIEProxyConfigForCurrentUser scripted [Some 0])
             = ie_config_zero\<lparr>fAutoDetect := True\<rparr>"
    by (simp add: scripted_def)
  show ?thesis
    using GetCurrentProxyConfig_failure_direct [of scripted "[]" string_library
        "\<lparr>auto_detect = True, proxy_rules = \<lparr>rules = ''old'', bypass_rules = [''x'']\<rparr>,
          pac_url = GURL ''http://pac''\<rparr>"]
      GetCurrentProxyConfig_failure_direct [of scripted "[Some 0]" string_library
        "\<lparr>auto_detect = False, proxy_rules = \<lparr>rules = ''old'', bypass_rules = [''x'']\<rparr>,
          pac_url = GURL ''http://pac''\<rparr>"]
      f t
    by (simp add: s SetFromIEConfig_def ie_config_zero_def Let_def)
qed

text \<open>
Claim C3 as stated fails. After the first \<open>AddObserver\<close> the list watches event 7;
  the re-arm after the signal fails and the list is empty; the second \<open>AddObserver\<close>
  finds the list empty, runs the start-up again and adds two entries.
\<close>

theorem watch_list_regrows_counterexample:
  "watched_events (run scripted (ProxyConfigServiceWin_ctor regrow_script)
      [Op_AddObserver 1]) = Some [7] \<and>
   watched_events (run scripted (ProxyConfigServiceWin_ctor regrow_script)
      [Op_AddObserver 1, Op_ObjectSignaled 7]) = Some [] \<and>
   watched_events (run scripted (ProxyConfigServiceWin_ctor regrow_script)
      [Op_AddObserver 1, Op_ObjectSignaled 7, Op_AddObserver 2]) = Some [8, 9]"
  by (simp add: eval_defs)

text \<open>
Claim C3, amended. Along every sequence of \<open>AddObserver\<close> calls and watch fires in
  which no \<open>AddObserver\<close> finds the list empty, entries are only removed: the locations
  watched at the end are a subsequence of the locations watched at the start.
\<close>

theorem watch_list_shrinks_without_restart:
  assumes "run P s ops = Inr s'"
      and "no_restart P s ops"
  shows "subseq (map location (keys_to_watch s')) (map location (keys_to_watch s))"
  using assms
proof (induction ops arbitrary: s)
  case Nil
  then show ?case by simp
next
  case (Cons op ops)
  from Cons.prems(1) obtain s1 where s1: "apply_operation P s op = Inr s1"
    and r: "run P s1 ops = Inr s'"
    by (cases "apply_operation P s op") auto
  from Cons.prems(2) s1 have g: "case op of Op_AddObserver observer \<Rightarrow> keys_to_watch s \<noteq> [] | Op_ObjectSignaled object \<Rightarrow> True"
    and n: "no_restart P s1 ops"
    by auto
  have "subseq (map location (keys_to_watch s1)) (map location (keys_to_watch s))"
    by (rule apply_operation_locations [OF s1 g])
  moreover have "subseq (map location (keys_to_watch s')) (map location (keys_to_watch s1))"
    by (rule Cons.IH [OF r n])
  ultimately show ?case by (rule subseq_order.trans [rotated])
qed

theorem watch_list_shrinks_without_restart_witness:
  "run scripted (two_keys_state [None]) [Op_ObjectSignaled 7, Op_AddObserver 2] =
     Inr ((two_keys_state [])
            \<lparr>keys_to_watch := [watched_entry HKEY_CURRENT_USER kInternetSettings 5],
             polling_calls := [Polling_CheckForChangesNow, Polling_AddObserver 2]\<rparr>) \<and>
   no_restart scripted (two_keys_state [None]) [Op_ObjectSignaled 7, Op_AddObserver 2] \<and>
   subseq [Some (HKEY_CURRENT_USER, kInternetSettings)]
     [Some (HKEY_CURRENT_USER, kInternetSettings), Some (HKEY_LOCAL_MACHINE, kInternetSettings)]"
proof -
  have r: "run scripted (two_keys_state [None]) [Op_ObjectSignaled 7, Op_AddObserver 2] =
     Inr ((two_keys_state [])
            \<lparr>keys_to_watch := [watched_entry HKEY_CURRENT_USER kInternetSettings 5],
             polling_calls := [Polling_CheckForChangesNow, Polling_AddObserver 2]\<rparr>)"
    by (simp add: eval_defs)
  have n: "no_restart scripted (two_keys_state [None]) [Op_ObjectSignaled 7, Op_AddObserver 2]"
    by (simp add: eval_defs)
  show ?thesis
    using watch_list_shrinks_without_restart [OF r n] r n
    by (simp add: two_keys_state_def watched_entry_def location_def)
qed

text \<open>
Claim C4. Along every sequence of triggers and completions from the initial core, the
  cycles started exceed the cycles completed by one when a fetch is in flight and by
  zero otherwise: at most one cycle is in flight. And when \<open>N \<ge> 1\<close> triggers arrive
  while a cycle is in flight, its completion starts exactly one further cycle, which is
  then in flight with no recheck pending; the completion of that one starts no other.
\<close>

theorem coalescing_single_follow_up:
  "cycle_balance (foldl core_step PollingCore_init events) \<and>
   (fetchInFlight core \<and> 1 \<le> N \<longrightarrow>
      cycles_started (fetchCompleted config ((checkForChangesNow ^^ N) core))
        = cycles_started core + 1 \<and>
      fetchInFlight (fetchCompleted config ((checkForChangesNow ^^ N) core)) \<and>
      \<not> recheckRequested (fetchCompleted config ((checkForChangesNow ^^ N) core)) \<and>
      cycles_started
        (fetchCompleted config' (fetchCompleted config ((checkForChangesNow ^^ N) core)))
        = cycles_started core + 1 \<and>
      \<not> fetchInFlight
        (fetchCompleted config' (fetchCompleted config ((checkForChangesNow ^^ N) core))))"
proof (intro conjI impI)
  have "cycle_balance (PollingCore_init :: 'a PollingCore)"
    by (simp add: cycle_balance_def PollingCore_init_def)
  then show "cycle_balance (foldl core_step (PollingCore_init :: 'a PollingCore) events)"
    by (rule cycle_balance_run)
next
  assume h: "fetchInFlight core \<and> 1 \<le> N"
  then have t: "(checkForChangesNow ^^ N) core = core\<lparr>recheckRequested := True\<rparr>"
    by (simp add: triggers_in_flight)
  show "cycles_started (fetchCompleted config ((checkForChangesNow ^^ N) core))
        = cycles_started core + 1"
    by (simp add: t fetchCompleted_def checkForChangesNow_def Let_def)
  show "fetchInFlight (fetchCompleted config ((checkForChangesNow ^^ N) core))"
    by (simp add: t fetchCompleted_def checkForChangesNow_def Let_def)
  show "\<not> recheckRequested (fetchCompleted config ((checkForChangesNow ^^ N) core))"
    by (simp add: t fetchCompleted_def checkForChangesNow_def Let_def)
  show "cycles_started
        (fetchCompleted config' (fetchCompleted config ((checkForChangesNow ^^ N) core)))
        = cycles_started core + 1"
    by (simp add: t fetchCompleted_def checkForChangesNow_def Let_def)
  show "\<not> fetchInFlight
        (fetchCompleted config' (fetchCompleted config ((checkForChangesNow ^^ N) core)))"
    by (simp add: t fetchCompleted_def checkForChangesNow_def Let_def)
qed

theorem coalescing_single_follow_up_witness:
  "cycle_balance (foldl core_step (PollingCore_init :: nat PollingCore)
      [Trigger, Trigger, FetchDone 1, Trigger, FetchDone 1, FetchDone 2]) \<and>
   cycles_started (fetchCompleted (1 :: nat) ((checkForChangesNow ^^ 3)
      (PollingCore_init\<lparr>fetchInFlight := True, cycles_started := 1\<rparr>))) = 2 \<and>
   cycles_started (fetchCompleted 2 (fetchCompleted (1 :: nat) ((checkForChangesNow ^^ 3)
      (PollingCore_init\<lparr>fetchInFlight := True, cycles_started := 1\<rparr>)))) = 2"
proof -
  have h: "fetchInFlight ((PollingCore_init :: nat PollingCore)
             \<lparr>fetchInFlight := True, cycles_started := 1\<rparr>) \<and> (1 :: nat) \<le> 3"
    by simp
  have c: "cycles_started ((PollingCore_init :: nat PollingCore)
             \<lparr>fetchInFlight := True, cycles_started := 1\<rparr>) = 1"
    by simp
  show ?thesis
    using coalescing_single_follow_up [of
        "[Trigger, Trigger, FetchDone (1 :: nat), Trigger, FetchDone 1, FetchDone 2]"
        "(PollingCore_init :: nat PollingCore)\<lparr>fetchInFlight := True, cycles_started := 1\<rparr>"
        3 1 2] h c
    by simp
qed

text \<open>
  Claim C5 as stated fails: the start-up is not idempotent. A start-up in which no key
  can be created leaves the list empty, and a second call attempts the three locations
  again and creates an entry.
\<close>

theorem start_up_repeats_counterexample:
  "keys_to_watch (StartWatchingRegistryForChanges scripted
      (ProxyConfigServiceWin_ctor late_success_script)) = [] \<and>
   keys_to_watch (StartWatchingRegistryForChanges scripted
      (StartWatchingRegistryForChanges scripted
         (ProxyConfigServiceWin_ctor late_success_script)))
     = [watched_entry HKEY_CURRENT_USER kInternetSettings 7]"
  by (simp add: eval_defs late_success_script_def)

text \<open>
  Claim C5, amended. \<open>AddObserver\<close> on the freshly constructed service runs the
  start-up (the three calls of \<open>AddKeyToWatchList\<close>) before it registers the observer
  with the superclass. In every state whose watch list is not empty, the test the source
  comments as "already initialized", the start-up returns the state as it is: no entry is
  created, no entry is changed and the platform is not called; so any number of further
  \<open>AddObserver\<close> calls only register their observers. In every state whose watch
  list is empty the start-up makes the three calls again.
\<close>

theorem StartWatchingRegistryForChanges_noop_when_watching:
  "AddObserver P (ProxyConfigServiceWin_ctor w) observer =
     (snd (AddKeyToWatchList P
        (snd (AddKeyToWatchList P
           (snd (AddKeyToWatchList P (ProxyConfigServiceWin_ctor w)
              HKEY_CURRENT_USER kInternetSettings))
           HKEY_LOCAL_MACHINE kInternetSettings))
        HKEY_LOCAL_MACHINE kPoliciesInternetSettings))
     \<lparr>polling_calls := [Polling_AddObserver observer]\<rparr> \<and>
   (keys_to_watch s \<noteq> [] \<longrightarrow>
      StartWatchingRegistryForChanges P s = s \<and>
      foldl (AddObserver P) s observers =
        s\<lparr>polling_calls := polling_calls s @ map Polling_AddObserver observers\<rparr>) \<and>
   (keys_to_watch s = [] \<longrightarrow>
      StartWatchingRegistryForChanges P s =
        snd (AddKeyToWatchList P
          (snd (AddKeyToWatchList P
             (snd (AddKeyToWatchList P s HKEY_CURRENT_USER kInternetSettings))
             HKEY_LOCAL_MACHINE kInternetSettings))
          HKEY_LOCAL_MACHINE kPoliciesInternetSettings))"
proof -
  let ?c = "ProxyConfigServiceWin_ctor w :: 'a ProxyConfigServiceWin"
  have e: "keys_to_watch ?c = []" and p: "polling_calls ?c = []"
    by (simp_all add: ProxyConfigServiceWin_ctor_def)
  have u: "StartWatchingRegistryForChanges P t =
        snd (AddKeyToWatchList P
          (snd (AddKeyToWatchList P
             (snd (AddKeyToWatchList P t HKEY_CURRENT_USER kInternetSettings))
             HKEY_LOCAL_MACHINE kInternetSettings))
          HKEY_LOCAL_MACHINE kPoliciesInternetSettings)"
    if "keys_to_watch t = []" for t :: "'a ProxyConfigServiceWin"
    using that by (simp add: StartWatchingRegistryForChanges_def Let_def)
  have "polling_calls (StartWatchingRegistryForChanges P ?c) = []"
    using StartWatchingRegistryForChanges_frame [of P ?c] p by simp
  then have "AddObserver P ?c observer =
      (StartWatchingRegistryForChanges P ?c)\<lparr>polling_calls := [Polling_AddObserver observer]\<rparr>"
    by (simp add: AddObserver_def Let_def)
  then have first: "AddObserver P ?c observer =
     (snd (AddKeyToWatchList P
        (snd (AddKeyToWatchList P
           (snd (AddKeyToWatchList P ?c HKEY_CURRENT_USER kInternetSettings))
           HKEY_LOCAL_MACHINE kInternetSettings))
        HKEY_LOCAL_MACHINE kPoliciesInternetSettings))
     \<lparr>polling_calls := [Polling_AddObserver observer]\<rparr>"
    using u [OF e] by simp
  show ?thesis
  proof (intro conjI impI)
    show "AddObserver P ?c observer =
     (snd (AddKeyToWatchList P
        (snd (AddKeyToWatchList P
           (snd (AddKeyToWatchList P ?c HKEY_CURRENT_USER kInternetSettings))
           HKEY_LOCAL_MACHINE kInternetSettings))
        HKEY_LOCAL_MACHINE kPoliciesInternetSettings))
     \<lparr>polling_calls := [Polling_AddObserver observer]\<rparr>"
      by (rule first)
  next
    assume "keys_to_watch s \<noteq> []"
    then show "StartWatchingRegistryForChanges P s = s"
      by (rule StartWatchingRegistryForChanges_initialized)
  next
    assume "keys_to_watch s \<noteq> []"
    then show "foldl (AddObserver P) s observers =
        s\<lparr>polling_calls := polling_calls s @ map Polling_AddObserver observers\<rparr>"
      by (rule AddObservers_initialized)
  next
    assume "keys_to_watch s = []"
    then show "StartWatchingRegistryForChanges P s =
        snd (AddKeyToWatchList P
          (snd (AddKeyToWatchList P
             (snd (AddKeyToWatchList P s HKEY_CURRENT_USER kInternetSettings))
             HKEY_LOCAL_MACHINE kInternetSettings))
          HKEY_LOCAL_MACHINE kPoliciesInternetSettings)"
      by (rule u)
  qed
qed

theorem StartWatchingRegistryForChanges_noop_when_watching_witness:
  "StartWatchingRegistryForChanges scripted (two_keys_state [Some 0, Some 9, Some 0])
     = two_keys_state [Some 0, Some 9, Some 0] \<and>
   foldl (AddObserver scripted) (two_keys_state [Some 0, Some 9, Some 0]) [1, 2]
     = (two_keys_state [Some 0, Some 9, Some 0])
         \<lparr>polling_calls := [Polling_AddObserver 1, Polling_AddObserver 2]\<rparr> \<and>
   keys_to_watch (StartWatchingRegistryForChanges scripted
      (ProxyConfigServiceWin_ctor watcher_fails_script))
     = [watched_entry HKEY_LOCAL_MACHINE kPoliciesInternetSettings 9]"
proof -
  let ?t = "two_keys_state [Some (0 :: nat), Some 9, Some 0]"
  let ?c = "ProxyConfigServiceWin_ctor watcher_fails_script"
  have k: "keys_to_watch ?t \<noteq> []" and p: "polling_calls ?t = []"
    by (simp_all add: two_keys_state_def ProxyConfigServiceWin_ctor_def)
  have e: "keys_to_watch ?c = []"
    by (simp add: ProxyConfigServiceWin_ctor_def)
  have v: "keys_to_watch (snd (AddKeyToWatchList scripted
          (snd (AddKeyToWatchList scripted
             (snd (AddKeyToWatchList scripted ?c HKEY_CURRENT_USER kInternetSettings))
             HKEY_LOCAL_MACHINE kInternetSettings))
          HKEY_LOCAL_MACHINE kPoliciesInternetSettings))
     = [watched_entry HKEY_LOCAL_MACHINE kPoliciesInternetSettings 9]"
    by (simp add: AddKeyToWatchList_def KeyEntry_CreateRegKey_def KeyEntry_StartWatching_def
        RegKey_Create_def RegKey_StartWatching_def ObjectWatcher_StartWatching_def
        KeyEntry_new_def scripted_def ProxyConfigServiceWin_ctor_def watched_entry_def
        watcher_fails_script_def)
  show ?thesis
    using StartWatchingRegistryForChanges_noop_when_watching
        [of scripted "[]" 1 ?t "[1, 2]"]
      StartWatchingRegistryForChanges_noop_when_watching
        [of scripted "[]" 1 ?c "[]"] k p e v
    by simp
qed

text \<open>
  Claim C6. From an empty list the start-up attempts the per-user Internet Settings
  key, the per-machine Internet Settings key and the machine policy Internet Settings
  key, three different locations, each in the world the attempt before it left, whatever
  that attempt came to. The list afterwards holds, in that order, the entry of every
  location whose key was created and whose watch was armed; a location whose creation or
  arming failed contributes nothing and takes no other location's entry away.
\<close>

theorem StartWatchingRegistryForChanges_three_locations:
  assumes "keys_to_watch s = []"
      and "location_outcome P (world s) HKEY_CURRENT_USER kInternetSettings = (r1, w1)"
      and "location_outcome P w1 HKEY_LOCAL_MACHINE kInternetSettings = (r2, w2)"
      and "location_outcome P w2 HKEY_LOCAL_MACHINE kPoliciesInternetSettings = (r3, w3)"
  shows "StartWatchingRegistryForChanges P s =
           s\<lparr>keys_to_watch := entry_list r1 @ entry_list r2 @ entry_list r3, world := w3\<rparr> \<and>
         map location (entry_list r1 @ entry_list r2 @ entry_list r3) =
           (if r1 = None then [] else [Some (HKEY_CURRENT_USER, kInternetSettings)]) @
           (if r2 = None then [] else [Some (HKEY_LOCAL_MACHINE, kInternetSettings)]) @
           (if r3 = None then [] else [Some (HKEY_LOCAL_MACHINE, kPoliciesInternetSettings)]) \<and>
         distinct [(HKEY_CURRENT_USER, kInternetSettings),
                   (HKEY_LOCAL_MACHINE, kInternetSettings),
                   (HKEY_LOCAL_MACHINE, kPoliciesInternetSettings)]"
proof -
  let ?s1 = "s\<lparr>keys_to_watch := keys_to_watch s @ entry_list r1, world := w1\<rparr>"
  let ?s2 = "?s1\<lparr>keys_to_watch := keys_to_watch ?s1 @ entry_list r2, world := w2\<rparr>"
  let ?s3 = "?s2\<lparr>keys_to_watch := keys_to_watch ?s2 @ entry_list r3, world := w3\<rparr>"
  have a1: "AddKeyToWatchList P s HKEY_CURRENT_USER kInternetSettings = (r1 \<noteq> None, ?s1)"
    by (rule AddKeyToWatchList_outcome [OF assms(2)])
  have "location_outcome P (world ?s1) HKEY_LOCAL_MACHINE kInternetSettings = (r2, w2)"
    using assms(3) by simp
  then have a2: "AddKeyToWatchList P ?s1 HKEY_LOCAL_MACHINE kInternetSettings = (r2 \<noteq> None, ?s2)"
    by (rule AddKeyToWatchList_outcome)
  have "location_outcome P (world ?s2) HKEY_LOCAL_MACHINE kPoliciesInternetSettings = (r3, w3)"
    using assms(4) by simp
  then have a3: "AddKeyToWatchList P ?s2 HKEY_LOCAL_MACHINE kPoliciesInternetSettings
                   = (r3 \<noteq> None, ?s3)"
    by (rule AddKeyToWatchList_outcome)
  have "StartWatchingRegistryForChanges P s = ?s3"
    by (rule StartWatchingRegistryForChanges_unfold [OF assms(1) a1 a2 a3])
  then have "StartWatchingRegistryForChanges P s =
           s\<lparr>keys_to_watch := entry_list r1 @ entry_list r2 @ entry_list r3, world := w3\<rparr>"
    using assms(1) by simp
  moreover have "map location (entry_list r1 @ entry_list r2 @ entry_list r3) =
           (if r1 = None then [] else [Some (HKEY_CURRENT_USER, kInternetSettings)]) @
           (if r2 = None then [] else [Some (HKEY_LOCAL_MACHINE, kInternetSettings)]) @
           (if r3 = None then [] else [Some (HKEY_LOCAL_MACHINE, kPoliciesInternetSettings)])"
    using location_outcome_locations [OF assms(2)] location_outcome_locations [OF assms(3)]
      location_outcome_locations [OF assms(4)]
    by (simp only: map_append)
  moreover have "kInternetSettings \<noteq> kPoliciesInternetSettings"
    by (simp add: kInternetSettings_def kPoliciesInternetSettings_def)
  ultimately show ?thesis by simp
qed

text \<open>
  Two start-ups for C6: one where a creation fails, the wait on an event is refused and
  the third location is armed; one where a change notification cannot be registered, the
  second location is armed and a creation fails.
\<close>

theorem StartWatchingRegistryForChanges_three_locations_witness:
  "StartWatchingRegistryForChanges scripted (ProxyConfigServiceWin_ctor watcher_fails_script) =
     (ProxyConfigServiceWin_ctor watcher_fails_script)
       \<lparr>keys_to_watch := [watched_entry HKEY_LOCAL_MACHINE kPoliciesInternetSettings 9],
        world := []\<rparr> \<and>
   StartWatchingRegistryForChanges scripted (ProxyConfigServiceWin_ctor notify_fails_script) =
     (ProxyConfigServiceWin_ctor notify_fails_script)
       \<lparr>keys_to_watch := [watched_entry HKEY_LOCAL_MACHINE kInternetSettings 8],
        world := []\<rparr>"
proof -
  let ?a = "ProxyConfigServiceWin_ctor watcher_fails_script"
  let ?b = "ProxyConfigServiceWin_ctor notify_fails_script"
  have e: "keys_to_watch ?a = []" "keys_to_watch ?b = []"
    by (simp_all add: ProxyConfigServiceWin_ctor_def)
  have a1: "location_outcome scripted (world ?a) HKEY_CURRENT_USER kInternetSettings
              = (None, [Some 0, Some 8, None, Some 0, Some 9, Some 0])"
    by (simp add: location_outcome_def arm_outcome_def scripted_def
        ProxyConfigServiceWin_ctor_def watcher_fails_script_def)
  have a2: "location_outcome scripted [Some 0, Some 8, None, Some 0, Some 9, Some 0]
              HKEY_LOCAL_MACHINE kInternetSettings = (None, [Some 0, Some 9, Some 0])"
    by (simp add: location_outcome_def arm_outcome_def scripted_def)
  have a3: "location_outcome scripted [Some 0, Some 9, Some 0]
              HKEY_LOCAL_MACHINE kPoliciesInternetSettings
              = (Some (watched_entry HKEY_LOCAL_MACHINE kPoliciesInternetSettings 9), [])"
    by (simp add: location_outcome_def arm_outcome_def scripted_def watched_entry_def)
  have b1: "location_outcome scripted (world ?b) HKEY_CURRENT_USER kInternetSettings
              = (None, [Some 0, Some 8, Some 0, None])"
    by (simp add: location_outcome_def arm_outcome_def scripted_def
        ProxyConfigServiceWin_ctor_def notify_fails_script_def)
  have b2: "location_outcome scripted [Some 0, Some 8, Some 0, None]
              HKEY_LOCAL_MACHINE kInternetSettings
              = (Some (watched_entry HKEY_LOCAL_MACHINE kInternetSettings 8), [None])"
    by (simp add: location_outcome_def arm_outcome_def scripted_def watched_entry_def)
  have b3: "location_outcome scripted [None] HKEY_LOCAL_MACHINE kPoliciesInternetSettings
              = (None, [])"
    by (simp add: location_outcome_def arm_outcome_def scripted_def)
  show ?thesis
    using StartWatchingRegistryForChanges_three_locations [OF e(1) a1 a2 a3]
      StartWatchingRegistryForChanges_three_locations [OF e(2) b1 b2 b3]
    by simp
qed

text \<open>
Claim C7. The constructor sets the poll interval to \<open>TimeDelta::FromSeconds(10)\<close>,
  and no sequence of \<open>AddObserver\<close> calls and watch fires changes it.
\<close>

theorem poll_interval_ten_seconds:
  "poll_interval (ProxyConfigServiceWin_ctor w) = FromSeconds 10 \<and>
   (run P (ProxyConfigServiceWin_ctor w) ops = Inr s' \<longrightarrow> InSeconds (poll_interval s') = 10)"
proof -
  have c: "poll_interval (ProxyConfigServiceWin_ctor w) = FromSeconds 10"
    by (simp add: ProxyConfigServiceWin_ctor_def kPollIntervalSec_def)
  then show ?thesis using run_poll_interval [of P "ProxyConfigServiceWin_ctor w" ops s']
    by auto
qed

theorem poll_interval_ten_seconds_witness:
  "\<not> isl (run scripted (ProxyConfigServiceWin_ctor regrow_script)
            [Op_AddObserver 1, Op_ObjectSignaled 7]) \<and>
   InSeconds (poll_interval (projr (run scripted (ProxyConfigServiceWin_ctor regrow_script)
            [Op_AddObserver 1, Op_ObjectSignaled 7]))) = 10"
proof -
  let ?r = "run scripted (ProxyConfigServiceWin_ctor regrow_script)
            [Op_AddObserver 1, Op_ObjectSignaled 7]"
  have i: "\<not> isl ?r"
    by (simp add: eval_defs)
  then have r: "?r = Inr (projr ?r)"
    by (cases ?r) auto
  show ?thesis
    using poll_interval_ten_seconds [of regrow_script scripted
        "[Op_AddObserver 1, Op_ObjectSignaled 7]" "projr ?r"] r i
    by simp
qed

text \<open>
Claim C8. \<open>AddKeyToWatchList\<close> returns \<open>true\<close> exactly when both the creation of
  the registry key and the start of the watch succeed. When it returns \<open>false\<close> the
  list is unchanged; when it returns \<open>true\<close> the list is the old list followed by the
  one new, armed entry.
\<close>

theorem AddKeyToWatchList_atomic:
  assumes "KeyEntry_CreateRegKey P (world s) KeyEntry_new rootkey subkey = (created, e1, w1)"
      and "KeyEntry_StartWatching P w1 e1 = (armed, e2, w2)"
      and "AddKeyToWatchList P s rootkey subkey = (result, s')"
  shows "result = (created \<and> armed) \<and>
         keys_to_watch s' =
           (if created \<and> armed then keys_to_watch s @ [e2] else keys_to_watch s)"
  using AddKeyToWatchList_unfold [OF assms(1,2)] assms(3)
  by (cases created; cases armed; auto)

theorem AddKeyToWatchList_atomic_witness:
  "fst (AddKeyToWatchList scripted (ProxyConfigServiceWin_ctor [Some 0, Some 7, Some 0])
          HKEY_CURRENT_USER kInternetSettings) \<and>
   keys_to_watch (snd (AddKeyToWatchList scripted
          (ProxyConfigServiceWin_ctor [Some 0, Some 7, Some 0])
          HKEY_CURRENT_USER kInternetSettings)) =
     [watched_entry HKEY_CURRENT_USER kInternetSettings 7] \<and>
   \<not> fst (AddKeyToWatchList scripted (two_keys_state [Some 0, Some 9, None])
          HKEY_LOCAL_MACHINE kPoliciesInternetSettings) \<and>
   keys_to_watch (snd (AddKeyToWatchList scripted (two_keys_state [Some 0, Some 9, None])
          HKEY_LOCAL_MACHINE kPoliciesInternetSettings)) =
     [watched_entry HKEY_CURRENT_USER kInternetSettings 5,
      watched_entry HKEY_LOCAL_MACHINE kInternetSettings 7]"
proof -
  let ?s = "ProxyConfigServiceWin_ctor [Some (0 :: nat), Some 7, Some 0]"
  let ?t = "two_keys_state [Some (0 :: nat), Some 9, None]"
  let ?r = "AddKeyToWatchList scripted ?s HKEY_CURRENT_USER kInternetSettings"
  let ?r' = "AddKeyToWatchList scripted ?t HKEY_LOCAL_MACHINE kPoliciesInternetSettings"
  let ?e = "\<lparr>key = \<lparr>opened_key = Some (HKEY_CURRENT_USER, kInternetSettings),
                       watch_event_handle = 0\<rparr>,
             watcher = \<lparr>watched_object = None\<rparr>\<rparr>"
  let ?e' = "\<lparr>key = \<lparr>opened_key = Some (HKEY_LOCAL_MACHINE, kPoliciesInternetSettings),
                        watch_event_handle = 0\<rparr>,
              watcher = \<lparr>watched_object = None\<rparr>\<rparr>"
  have c: "KeyEntry_CreateRegKey scripted (world ?s) KeyEntry_new
             HKEY_CURRENT_USER kInternetSettings = (True, ?e, [Some 7, Some 0])"
    by (simp add: KeyEntry_CreateRegKey_def RegKey_Create_def KeyEntry_new_def scripted_def
        ProxyConfigServiceWin_ctor_def)
  have a: "KeyEntry_StartWatching scripted [Some 7, Some 0] ?e =
             (True, watched_entry HKEY_CURRENT_USER kInternetSettings 7, [])"
    by (simp add: KeyEntry_StartWatching_def RegKey_StartWatching_def
        ObjectWatcher_StartWatching_def scripted_def watched_entry_def)
  have r: "?r = (fst ?r, snd ?r)"
    by simp
  have c': "KeyEntry_CreateRegKey scripted (world ?t) KeyEntry_new
              HKEY_LOCAL_MACHINE kPoliciesInternetSettings = (True, ?e', [Some 9, None])"
    by (simp add: KeyEntry_CreateRegKey_def RegKey_Create_def KeyEntry_new_def scripted_def
        ProxyConfigServiceWin_ctor_def two_keys_state_def)
  have a': "KeyEntry_StartWatching scripted [Some 9, None] ?e' =
              (False, ?e'\<lparr>key := \<lparr>opened_key = Some (HKEY_LOCAL_MACHINE, kPoliciesInternetSettings),
                                     watch_event_handle = 9\<rparr>\<rparr>, [])"
    by (simp add: KeyEntry_StartWatching_def RegKey_StartWatching_def
        ObjectWatcher_StartWatching_def scripted_def)
  have r': "?r' = (fst ?r', snd ?r')"
    by simp
  have k: "keys_to_watch ?s = []"
    by (simp add: ProxyConfigServiceWin_ctor_def)
  have k': "keys_to_watch ?t = [watched_entry HKEY_CURRENT_USER kInternetSettings 5,
      watched_entry HKEY_LOCAL_MACHINE kInternetSettings 7]"
    by (simp add: two_keys_state_def)
  show ?thesis
    using AddKeyToWatchList_atomic [OF c a r] AddKeyToWatchList_atomic [OF c' a' r'] k k'
    by simp
qed

text \<open>
Claim C9. \<open>SetFromIEConfig\<close> never clears. When \<open>fAutoDetect\<close> is false the
  auto-detect flag is the caller's, and a flag that was set stays set; when
  \<open>lpszProxy\<close> is null the proxy rules are the caller's; when \<open>lpszProxyBypass\<close> is
  null the bypass rules are the caller's, given that \<open>lpszProxy\<close> is null too or that
  \<open>ParseFromString\<close>, which is declared elsewhere and runs on the object holding the
  bypass rules, leaves them alone; when \<open>lpszAutoConfigUrl\<close> is null the PAC URL is the
  caller's.
\<close>

theorem SetFromIEConfig_only_adds:
  "(\<not> fAutoDetect ie_config \<longrightarrow>
      auto_detect (SetFromIEConfig L config ie_config) = auto_detect config) \<and>
   (auto_detect config \<longrightarrow> auto_detect (SetFromIEConfig L config ie_config)) \<and>
   (lpszProxy ie_config = None \<longrightarrow>
      rules (proxy_rules (SetFromIEConfig L config ie_config)) = rules (proxy_rules config)) \<and>
   (lpszProxyBypass ie_config = None \<and>
    (lpszProxy ie_config = None \<or>
     (\<forall>str r. bypass_rules (ParseFromString L str r) = bypass_rules r)) \<longrightarrow>
      bypass_rules (proxy_rules (SetFromIEConfig L config ie_config))
        = bypass_rules (proxy_rules config)) \<and>
   (lpszAutoConfigUrl ie_config = None \<longrightarrow>
      pac_url (SetFromIEConfig L config ie_config) = pac_url config)"
  by (cases "lpszProxy ie_config"; cases "lpszProxyBypass ie_config";
      cases "lpszAutoConfigUrl ie_config"; cases "fAutoDetect ie_config";
      simp add: SetFromIEConfig_def Let_def)

theorem SetFromIEConfig_only_adds_witness:
  "auto_detect (SetFromIEConfig string_library sample_config ie_config_zero) \<and>
   rules (proxy_rules (SetFromIEConfig string_library sample_config ie_config_zero))
     = ''http=old:80'' \<and>
   bypass_rules (proxy_rules (SetFromIEConfig string_library sample_config ie_config_zero))
     = [''localhost''] \<and>
   pac_url (SetFromIEConfig string_library sample_config ie_config_zero)
     = GURL ''http://pac.example/proxy.pac'' \<and>
   bypass_rules (proxy_rules (SetFromIEConfig string_library sample_config
      (ie_config_zero\<lparr>lpszProxy := Some ''new:8080''\<rparr>))) = [''localhost'']"
proof -
  have z: "\<not> fAutoDetect ie_config_zero" "lpszProxy ie_config_zero = None"
    "lpszProxyBypass ie_config_zero = None" "lpszAutoConfigUrl ie_config_zero = None"
    by (simp_all add: ie_config_zero_def)
  have p: "lpszProxyBypass (ie_config_zero\<lparr>lpszProxy := Some ''new:8080''\<rparr>) = None"
    by (simp add: ie_config_zero_def)
  have f: "\<forall>str r. bypass_rules (ParseFromString string_library str r) = bypass_rules r"
    by (simp add: string_library_def)
  have s: "auto_detect sample_config" "rules (proxy_rules sample_config) = ''http=old:80''"
    "bypass_rules (proxy_rules sample_config) = [''localhost'']"
    "pac_url sample_config = GURL ''http://pac.example/proxy.pac''"
    by (simp_all add: sample_config_def)
  show ?thesis
    using SetFromIEConfig_only_adds [of ie_config_zero string_library sample_config]
      SetFromIEConfig_only_adds [of "ie_config_zero\<lparr>lpszProxy := Some ''new:8080''\<rparr>"
        string_library sample_config]
      z p f s
    by simp
qed

text \<open>
Claim C10. \<open>OnObjectSignaled\<close> relies on the signalled handle being the watch event
  of an entry of the list. When no entry matches, the scan ends at the end iterator and
  the handler dereferences it (only the debug assertion stands in between). When some
  entry matches, the scan stops inside the list at an entry with that watch event, so the
  dereference is valid and the handler returns.
\<close>

theorem OnObjectSignaled_precondition:
  "((\<forall>e \<in> set (keys_to_watch s). watch_event e \<noteq> object) \<longrightarrow>
      OnObjectSignaled P s object = Inl EndIteratorDereferenced) \<and>
   ((\<exists>e \<in> set (keys_to_watch s). watch_event e = object) \<longrightarrow>
      find_signalled object (keys_to_watch s) < length (keys_to_watch s) \<and>
      watch_event (keys_to_watch s ! find_signalled object (keys_to_watch s)) = object \<and>
      (\<exists>s'. OnObjectSignaled P s object = Inr s'))"
proof (intro conjI impI)
  assume "\<forall>e \<in> set (keys_to_watch s). watch_event e \<noteq> object"
  then show "OnObjectSignaled P s object = Inl EndIteratorDereferenced"
    by (simp add: OnObjectSignaled_end find_signalled_end)
next
  assume "\<exists>e \<in> set (keys_to_watch s). watch_event e = object"
  then have ne: "find_signalled object (keys_to_watch s) \<noteq> length (keys_to_watch s)"
    by (simp add: find_signalled_end)
  then show lt: "find_signalled object (keys_to_watch s) < length (keys_to_watch s)"
    using find_signalled_le [of object "keys_to_watch s"] by simp
  then show "watch_event (keys_to_watch s ! find_signalled object (keys_to_watch s)) = object"
    by (rule find_signalled_hit)
  obtain ok e' w'
    where "KeyEntry_StartWatching P (world s)
             (keys_to_watch s ! find_signalled object (keys_to_watch s)) = (ok, e', w')"
    by (cases "KeyEntry_StartWatching P (world s)
             (keys_to_watch s ! find_signalled object (keys_to_watch s))") auto
  from OnObjectSignaled_unfold [OF refl ne this]
  show "\<exists>s'. OnObjectSignaled P s object = Inr s'" by blast
qed

theorem OnObjectSignaled_precondition_witness:
  "OnObjectSignaled scripted (two_keys_state [Some 7, Some 0]) 9 = Inl EndIteratorDereferenced \<and>
   find_signalled 7 (keys_to_watch (two_keys_state [Some (7 :: nat), Some 0])) = 1 \<and>
   (\<exists>s'. OnObjectSignaled scripted (two_keys_state [Some 7, Some 0]) 7 = Inr s')"
proof -
  let ?s = "two_keys_state [Some (7 :: nat), Some 0]"
  have n: "\<forall>e \<in> set (keys_to_watch ?s). watch_event e \<noteq> 9"
    by (simp add: two_keys_state_def watched_entry_def watch_event_def)
  have y: "\<exists>e \<in> set (keys_to_watch ?s). watch_event e = 7"
    by (simp add: two_keys_state_def watched_entry_def watch_event_def)
  have i: "find_signalled 7 (keys_to_watch ?s) = 1"
    by (simp add: two_keys_state_def watched_entry_def watch_event_def)
  show ?thesis
    using OnObjectSignaled_precondition [of ?s 9 scripted]
      OnObjectSignaled_precondition [of ?s 7 scripted] n y i
    by simp
qed

end
